theory Spec2Isabelle
  imports Complex_Main "HOL-Library.Sublist"
begin

section \<open>Python strings\<close>

text \<open>
  Python \<open>str\<close> values are modelled as \<open>string\<close>; a character is a code point below 256
  (Latin-1), and text with a code point from 256 on is not covered. On that range
  \<open>is_space\<close> is \<open>str.isspace\<close>, which is also what \<open>\s\<close> matches in a \<open>re\<close> pattern on
  \<open>str\<close> and what \<open>strip\<close> removes; \<open>is_word\<close> is \<open>\w\<close>, that is \<open>str.isalnum\<close> or the
  underscore, with the letters and digits of the upper half; \<open>lower\<close> is \<open>str.lower\<close>.
\<close>

definition dq :: char where
  "dq = CHR 0x22"

definition sq :: char where
  "sq = CHR 0x27"

definition nl :: char where
  "nl = CHR 0x0A"

definition tab :: char where
  "tab = CHR 0x09"

definition is_space :: "char \<Rightarrow> bool" where
  "is_space c = (c \<in> set [CHR 0x20, CHR 0x09, CHR 0x0A, CHR 0x0B, CHR 0x0C, CHR 0x0D,
                            CHR 0x1C, CHR 0x1D, CHR 0x1E, CHR 0x1F, CHR 0x85, CHR 0xA0])"

definition is_word :: "char \<Rightarrow> bool" where
  "is_word c = (let n = (of_char c :: nat) in
      (48 \<le> n \<and> n \<le> 57) \<or> (65 \<le> n \<and> n \<le> 90) \<or> n = 95 \<or> (97 \<le> n \<and> n \<le> 122)
      \<or> n = 170 \<or> (178 \<le> n \<and> n \<le> 179) \<or> n = 181 \<or> (185 \<le> n \<and> n \<le> 186)
      \<or> (188 \<le> n \<and> n \<le> 190) \<or> (192 \<le> n \<and> n \<le> 214) \<or> (216 \<le> n \<and> n \<le> 246)
      \<or> (248 \<le> n \<and> n \<le> 255))"

definition lstrip :: "string \<Rightarrow> string" where
  "lstrip s = dropWhile is_space s"

definition rstrip :: "string \<Rightarrow> string" where
  "rstrip s = rev (dropWhile is_space (rev s))"

definition strip :: "string \<Rightarrow> string" where
  "strip s = lstrip (rstrip s)"

text \<open>\<open>s.lstrip(chars)\<close> and \<open>s.strip(chars)\<close> with an explicit character set.\<close>

definition lstrip_chars :: "string \<Rightarrow> string \<Rightarrow> string" where
  "lstrip_chars cs s = dropWhile (\<lambda>c. c \<in> set cs) s"

definition strip_chars :: "string \<Rightarrow> string \<Rightarrow> string" where
  "strip_chars cs s = lstrip_chars cs (rev (lstrip_chars cs (rev s)))"

text \<open>\<open>s.startswith(p)\<close> is \<^const>\<open>prefix\<close> \<open>p s\<close>; \<open>sub in s\<close> is \<open>contains sub s\<close>.\<close>

fun contains :: "string \<Rightarrow> string \<Rightarrow> bool" where
  "contains sub [] = (sub = [])"
| "contains sub (c # cs) = (prefix sub (c # cs) \<or> contains sub cs)"

text \<open>\<open>s.replace(old, new)\<close> for a non-empty \<open>old\<close>: left to right, non-overlapping.\<close>

function replace :: "string \<Rightarrow> string \<Rightarrow> string \<Rightarrow> string" where
  "replace old new [] = []"
| "replace old new (c # cs) =
     (if old \<noteq> [] \<and> prefix old (c # cs)
      then new @ replace old new (drop (length old) (c # cs))
      else c # replace old new cs)"
  by pat_completeness auto
termination
  by (relation "measure (\<lambda>(old, new, s). length s)") (auto simp: neq_Nil_conv)

definition lower_char :: "char \<Rightarrow> char" where
  "lower_char c = (let n = (of_char c :: nat) in
      if (65 \<le> n \<and> n \<le> 90) \<or> (192 \<le> n \<and> n \<le> 214) \<or> (216 \<le> n \<and> n \<le> 222)
      then char_of (n + 32) else c)"

definition lower :: "string \<Rightarrow> string" where
  "lower s = map lower_char s"

text \<open>Python's \<open>a or b\<close> on strings: the first one that is not empty.\<close>

definition or_str :: "string \<Rightarrow> string \<Rightarrow> string" where
  "or_str a b = (if a \<noteq> [] then a else b)"

text \<open>\<open>e.get(k) or d\<close> on an optional string: \<open>None\<close> and the empty string both give \<open>d\<close>.\<close>

definition opt_or :: "string option \<Rightarrow> string \<Rightarrow> string" where
  "opt_or v d = (case v of None \<Rightarrow> d | Some s \<Rightarrow> or_str s d)"

section \<open>The fragment of \<open>re\<close> the script uses\<close>

text \<open>
  Every pattern of the script is a sequence of quantified character classes, some of them
  capturing, with an optional \<open>$\<close>. The matcher is the backtracking one of \<open>re\<close>: a
  quantifier is greedy, and gives characters back one at a time when the rest of the
  pattern fails. A match returns the captured groups and the input left after the match.
\<close>

datatype quant = One | Opt | Star | Plus

datatype atom = Cls "char \<Rightarrow> bool" quant bool | End

text \<open>The repetition counts a quantifier may take when \<open>m\<close> characters are available, greedy first.\<close>

fun counts :: "quant \<Rightarrow> nat \<Rightarrow> nat list" where
  "counts One m = (if 1 \<le> m then [1] else [])"
| "counts Opt m = (if 1 \<le> m then [1, 0] else [0])"
| "counts Star m = rev [0..<Suc m]"
| "counts Plus m = rev [1..<Suc m]"

fun first_some :: "'a option list \<Rightarrow> 'a option" where
  "first_some [] = None"
| "first_some (None # xs) = first_some xs"
| "first_some (Some x # xs) = Some x"

fun rmatch :: "atom list \<Rightarrow> string \<Rightarrow> (string list \<times> string) option" where
  "rmatch [] s = Some ([], s)"
| "rmatch (End # as) s = (if s = [] \<or> s = [nl] then rmatch as s else None)"
| "rmatch (Cls p q cap # as) s =
     first_some (map (\<lambda>n. case rmatch as (drop n s) of
                             None \<Rightarrow> None
                           | Some (gs, r) \<Rightarrow> Some ((if cap then [take n s] else []) @ gs, r))
                     (counts q (length (takeWhile p s))))"

text \<open>\<open>re.match\<close> anchors at the start; \<open>re.search\<close> takes the leftmost start that matches.\<close>

definition re_match :: "atom list \<Rightarrow> string \<Rightarrow> string list option" where
  "re_match pat s = map_option fst (rmatch pat s)"

fun rsearch :: "atom list \<Rightarrow> string \<Rightarrow> (string list \<times> string) option" where
  "rsearch pat [] = rmatch pat []"
| "rsearch pat (c # cs) =
     (case rmatch pat (c # cs) of Some r \<Rightarrow> Some r | None \<Rightarrow> rsearch pat cs)"

definition re_search :: "atom list \<Rightarrow> string \<Rightarrow> string list option" where
  "re_search pat s = map_option fst (rsearch pat s)"

text \<open>
  \<open>re.findall\<close> for a pattern with one group whose matches are never empty: the group
  of each match, the search resuming where the previous match ended. The length test
  holds whenever the pattern consumes a character and is there for termination.
\<close>

function findall :: "atom list \<Rightarrow> string \<Rightarrow> string list" where
  "findall pat s =
     (case rsearch pat s of
        None \<Rightarrow> []
      | Some (gs, r) \<Rightarrow> if length r < length s then concat [gs] @ findall pat r else [])"
  by pat_completeness auto
termination
  by (relation "measure (\<lambda>(pat, s). length s)") auto

definition lit :: "string \<Rightarrow> atom list" where
  "lit s = map (\<lambda>c. Cls (\<lambda>x. x = c) One False) s"

text \<open>\<open>^\s*-\s+(\w+)\s*:\s*(.*)$\<close>\<close>

definition cmd_re :: "atom list" where
  "cmd_re = [Cls is_space Star False] @ lit ''-'' @ [Cls is_space Plus False,
             Cls is_word Plus True, Cls is_space Star False] @ lit '':'' @
            [Cls is_space Star False, Cls (\<lambda>c. c \<noteq> nl) Star True, End]"

text \<open>\<open>file:\s*\.\./subflows/(\S+)\<close>\<close>

definition file_re :: "atom list" where
  "file_re = lit ''file:'' @ [Cls is_space Star False] @ lit ''../subflows/'' @
             [Cls (\<lambda>c. \<not> is_space c) Plus True]"

text \<open>\<open>id:\s*["']?([^"'\s]+)\<close>\<close>

definition id_re :: "atom list" where
  "id_re = lit ''id:'' @ [Cls is_space Star False, Cls (\<lambda>c. c = dq \<or> c = sq) Opt False,
            Cls (\<lambda>c. \<not> (c = dq \<or> c = sq \<or> is_space c)) Plus True]"

text \<open>\<open>text:\s*["']?([^"'\n]+)\<close>\<close>

definition text_re :: "atom list" where
  "text_re = lit ''text:'' @ [Cls is_space Star False, Cls (\<lambda>c. c = dq \<or> c = sq) Opt False,
            Cls (\<lambda>c. \<not> (c = dq \<or> c = sq \<or> c = nl)) Plus True]"

text \<open>\<open>"([^"]+)"\<close>\<close>

definition quoted_re :: "atom list" where
  "quoted_re = [Cls (\<lambda>c. c = dq) One False, Cls (\<lambda>c. c \<noteq> dq) Plus True,
                Cls (\<lambda>c. c = dq) One False]"

text \<open>The first group of a match, as \<open>m.group(1) if m else d\<close>.\<close>

definition group1_or :: "string list option \<Rightarrow> string \<Rightarrow> string" where
  "group1_or m d = (case m of Some (g # _) \<Rightarrow> g | _ \<Rightarrow> d)"

section \<open>\<open>steps_from_flow_yaml\<close>\<close>

text \<open>
  A flow file is the list of its lines, as \<open>read_text().splitlines()\<close> gives them. The
  \<open>while\<close> loop reads \<open>lines[i]\<close> and only looks ahead, so it is a recursion on the lines
  from \<open>i\<close> on: \<open>following\<close> is \<open>lines[i:]\<close> after the increment.
\<close>

text \<open>The \<open>runFlow\<close> look-ahead: the indented lines that follow, up to the first subflow reference.\<close>

fun runflow_subname :: "string list \<Rightarrow> string" where
  "runflow_subname [] = ''subflow''"
| "runflow_subname (l # ls) =
     (if prefix '' '' l \<or> prefix [tab] l
      then (case re_search file_re l of
              Some (g # _) \<Rightarrow> replace ''.yaml'' [] g
            | _ \<Rightarrow> runflow_subname ls)
      else ''subflow'')"

text \<open>The \<open>assertVisible\<close> look-ahead over \<open>lines[i : min(i + 5, len(lines))]\<close>.\<close>

fun assert_lookahead :: "string list \<Rightarrow> string" where
  "assert_lookahead [] = []"
| "assert_lookahead (l # ls) =
     (if re_search id_re l \<noteq> None then group1_or (re_search id_re l) []
      else if contains ''text:'' l
      then strip_chars [dq] (case re_search text_re l of
                               Some (g # _) \<Rightarrow> strip g
                             | _ \<Rightarrow> [])
      else assert_lookahead ls)"

definition tap_step :: "string \<Rightarrow> string" where
  "tap_step rest =
     (let detail = rest;
          detail = (if contains ''id:'' detail
                    then group1_or (re_search id_re detail) detail else detail)
      in if detail \<noteq> [] then ''Tap: '' @ detail else ''Tap'')"

definition assert_step :: "string \<Rightarrow> string list \<Rightarrow> string" where
  "assert_step rest following =
     (let detail = rest;
          detail = (if detail = [] \<and> following \<noteq> []
                    then assert_lookahead (take 5 following) else detail);
          detail = (if contains ''id:'' detail
                    then group1_or (re_search id_re detail) detail
                    else if contains ''text:'' detail
                    then (case re_search text_re detail of
                            Some (g # _) \<Rightarrow> strip g
                          | _ \<Rightarrow> detail)
                    else detail)
      in if detail \<noteq> [] then ''Assert visible: '' @ detail else ''Assert visible'')"

definition command_step :: "string \<Rightarrow> string \<Rightarrow> string list \<Rightarrow> string" where
  "command_step cmd rest following =
     (if cmd = ''runFlow'' then ''Run flow: '' @ runflow_subname following
      else if cmd = ''launchApp'' then ''Launch app (clear state)''
      else if cmd = ''tapOn'' then tap_step rest
      else if cmd = ''assertVisible'' then assert_step rest following
      else cmd @ (if rest \<noteq> [] then '' ('' @ rest @ '')'' else []))"

fun steps_loop :: "bool \<Rightarrow> string list \<Rightarrow> string list" where
  "steps_loop in_steps [] = []"
| "steps_loop in_steps (line # following) =
     (let line_stripped = rstrip line in
      if strip line_stripped = ''---'' then steps_loop True following
      else if \<not> in_steps then steps_loop in_steps following
      else if prefix ''#'' (strip line_stripped) \<and> strip line_stripped \<noteq> ''#''
      then or_str (strip (lstrip_chars ''#'' (strip line_stripped))) ''Comment''
           # steps_loop in_steps following
      else (case re_match cmd_re line_stripped of
              Some [cmd, g2] \<Rightarrow> command_step cmd (strip g2) following
                                # steps_loop in_steps following
            | _ \<Rightarrow> steps_loop in_steps following))"

text \<open>The flows directory maps a file name to the lines of the file, when the file exists.\<close>

definition steps_from_flow_yaml :: "(string \<rightharpoonup> string list) \<Rightarrow> string \<Rightarrow> string list" where
  "steps_from_flow_yaml flows_dir flow_path =
     (case flows_dir flow_path of
        None \<Rightarrow> []
      | Some lines \<Rightarrow> steps_loop False lines)"

section \<open>The configuration tables\<close>

definition REPORT_TO_FLOW_ORDER :: "(string \<times> string) list" where
  "REPORT_TO_FLOW_ORDER =
     [(''assets_report'', ''assets_test.yaml''),
      (''dashboard_report'', ''dashboard_test.yaml''),
      (''profile_report'', ''profile_test.yaml'')]"

definition REPORT_TO_MAESTRO_DIR :: "(string \<times> string) list" where
  "REPORT_TO_MAESTRO_DIR =
     [(''dashboard_report'', ''maestro-dashboard''),
      (''assets_report'', ''maestro-assets''),
      (''profile_report'', ''maestro-profile'')]"

definition IMAGE_EXTENSIONS :: "string list" where
  "IMAGE_EXTENSIONS = [''.png'', ''.jpg'', ''.jpeg'', ''.gif'', ''.bmp'', ''.tiff'', ''.webp'']"

definition IMAGE_MIME :: "(string \<times> string) list" where
  "IMAGE_MIME =
     [(''.png'', ''image/png''), (''.jpg'', ''image/jpeg''), (''.jpeg'', ''image/jpeg''),
      (''.gif'', ''image/gif''), (''.bmp'', ''image/bmp''), (''.tiff'', ''image/tiff''),
      (''.webp'', ''image/webp'')]"

section \<open>Data\<close>

text \<open>
  An element of an \<open>ElementTree\<close>: tag, attributes, the text before the first child
  (\<open>None\<close> when there is none) and the children in document order.
\<close>

datatype xml = Elem (e_tag: string) (e_attrib: "(string \<times> string) list")
                    (e_text: "string option") (e_children: "xml list")

datatype report_file = Malformed | Parsed xml

datatype error = ParseError | ValueError | OverflowError | IndexError

record status_details =
  sd_message :: string
  sd_trace :: string

text \<open>
  The tuple appended to \<open>cases\<close>. \<open>'f\<close> is the type of Python's \<open>float\<close> values; the
  model takes it, and the arithmetic on it, from the runtime (see \<open>env\<close> below).
\<close>

record 'f test_case =
  report_name :: string
  flow_name :: string
  tc_name :: string
  tc_status :: string
  time_sec :: "'f"
  tc_details :: "status_details option"

record attachment =
  a_name :: string
  a_source :: string
  a_type :: string

text \<open>A step dictionary; a key that is not set is \<open>None\<close>.\<close>

record step =
  s_name :: string
  s_status :: string
  s_start :: int
  s_stop :: int
  s_statusDetails :: "status_details option"
  s_attachments :: "attachment list option"

record allure_result =
  r_uuid :: string
  r_historyId :: string
  r_fullName :: string
  r_name :: string
  r_status :: string
  r_start :: int
  r_stop :: int
  r_labels :: "(string \<times> string) list"
  r_steps :: "step list"
  r_statusDetails :: "status_details option"
  r_attachments :: "attachment list option"

text \<open>
  A file found by \<open>rglob\<close>: its path, \<open>is_file()\<close>, \<open>suffix\<close> and \<open>stat().st_mtime\<close>.
\<close>

record file_entry =
  f_path :: string
  f_is_file :: bool
  f_suffix :: string
  f_mtime :: rat

text \<open>
  The state the script works on. \<open>cwd_is_root\<close> says that the working directory is
  \<open>ROOT\<close>, \<open>results_dir_exists\<close> that \<open>allure-results\<close> exists. \<open>reports\<close> holds
  \<open>allure-results/<key>.xml\<close> by key, \<open>flows\<close> the flow files by name, \<open>maestro\<close> the
  listing of each run-output directory in the order \<open>rglob("*")\<close> yields it. \<open>written\<close>
  and \<open>copied\<close> log the result files written and the images copied, in order. \<open>uuid_ctr\<close>
  counts the calls of \<open>uuid.uuid4\<close>.
\<close>

record world =
  cwd_is_root :: bool
  results_dir_exists :: bool
  reports :: "string \<rightharpoonup> report_file"
  flows :: "string \<rightharpoonup> string list"
  maestro :: "string \<rightharpoonup> file_entry list"
  written :: "(string \<times> allure_result) list"
  copied :: "(string \<times> string) list"
  uuid_ctr :: nat

text \<open>
  What the script takes from its runtime. The float arithmetic is not fixed by the model:
  \<open>pyfloat\<close> is \<open>float\<close> on a string (\<open>None\<close> where it raises \<open>ValueError\<close>),
  \<open>float_zero\<close> is \<open>float(0)\<close>, \<open>fsum\<close> is the builtin \<open>sum\<close> on a list of floats that
  is not empty, \<open>fmul\<close> and \<open>fdiv\<close> are \<open>*\<close> and \<open>/\<close> of a float and an \<open>int\<close>, and
  \<open>pyint\<close> is \<open>int\<close> on a float, which raises \<open>OverflowError\<close> on an infinity and
  \<open>ValueError\<close> on a NaN. \<open>now_ms\<close> is \<open>int(time.time() * 1000)\<close> and \<open>uuid4\<close> gives the
  values of \<open>str(uuid.uuid4())\<close>.
\<close>

record 'f env =
  pyfloat :: "string \<Rightarrow> 'f option"
  float_zero :: "'f"
  fsum :: "'f list \<Rightarrow> 'f"
  fmul :: "'f \<Rightarrow> int \<Rightarrow> 'f"
  fdiv :: "'f \<Rightarrow> int \<Rightarrow> 'f"
  pyint :: "'f \<Rightarrow> error + int"
  now_ms :: int
  uuid4 :: "nat \<Rightarrow> string"

section \<open>Collecting the test cases\<close>

definition get :: "xml \<Rightarrow> string \<Rightarrow> string option" where
  "get e k = map_of (e_attrib e) k"

text \<open>\<open>e.find(tag)\<close>: the first child with the tag. \<open>e.findall(tag)\<close>: all the children with it.\<close>

definition find_child :: "string \<Rightarrow> xml \<Rightarrow> xml option" where
  "find_child t e = List.find (\<lambda>c. e_tag c = t) (e_children e)"

definition findall_children :: "string \<Rightarrow> xml \<Rightarrow> xml list" where
  "findall_children t e = filter (\<lambda>c. e_tag c = t) (e_children e)"

fun descendants :: "xml \<Rightarrow> xml list" where
  "descendants (Elem t a x cs) = concat (map (\<lambda>c. c # descendants c) cs)"

text \<open>\<open>root.findall(".//testsuite")\<close>\<close>

definition findall_descendants :: "string \<Rightarrow> xml \<Rightarrow> xml list" where
  "findall_descendants t e = filter (\<lambda>c. e_tag c = t) (descendants e)"

text \<open>The dictionary built from a \<open><failure>\<close> or \<open><error>\<close> node.\<close>

definition failure_details :: "xml \<Rightarrow> status_details" where
  "failure_details node =
     (let msg = strip (opt_or (get node ''message'') []);
          body = strip (opt_or (e_text node) [])
      in \<lparr>sd_message = or_str (or_str msg body) ''Test failed'',
          sd_trace = (if body \<noteq> msg then body else [])\<rparr>)"

text \<open>The loop over \<open>("failure", "error")\<close>, left at the first tag that is found.\<close>

definition find_details :: "xml \<Rightarrow> status_details option" where
  "find_details tc =
     (case find_child ''failure'' tc of
        Some node \<Rightarrow> Some (failure_details node)
      | None \<Rightarrow> (case find_child ''error'' tc of
                   Some node \<Rightarrow> Some (failure_details node)
                 | None \<Rightarrow> None))"

definition derive_status :: "string option \<Rightarrow> bool \<Rightarrow> string" where
  "derive_status status_attr has_failure_node =
     (let status = lower (opt_or status_attr ''SUCCESS'')
      in if status = ''success'' then ''passed''
         else if status = ''failure'' then ''failed''
         else if has_failure_node then ''failed''
         else ''passed'')"

definition parse_testcase :: "'f env \<Rightarrow> string \<Rightarrow> string \<Rightarrow> xml \<Rightarrow> error + 'f test_case" where
  "parse_testcase env rname fname tc =
     (let name = opt_or (get tc ''name'') (opt_or (get tc ''id'') ''Unnamed'');
          details = find_details tc;
          has_failure_node = (details \<noteq> None);
          status = derive_status (get tc ''status'') has_failure_node
      in case (case get tc ''time'' of None \<Rightarrow> Some (float_zero env) | Some s \<Rightarrow> pyfloat env s) of
           None \<Rightarrow> Inl ValueError
         | Some t \<Rightarrow> Inr \<lparr>report_name = rname, flow_name = fname, tc_name = name,
                          tc_status = status, time_sec = t, tc_details = details\<rparr>)"

fun map_err :: "('a \<Rightarrow> error + 'b) \<Rightarrow> 'a list \<Rightarrow> error + 'b list" where
  "map_err f [] = Inr []"
| "map_err f (x # xs) =
     (case f x of
        Inl e \<Rightarrow> Inl e
      | Inr y \<Rightarrow> (case map_err f xs of Inl e \<Rightarrow> Inl e | Inr ys \<Rightarrow> Inr (y # ys)))"

definition cases_of_root :: "'f env \<Rightarrow> string \<Rightarrow> string \<Rightarrow> xml \<Rightarrow> error + 'f test_case list" where
  "cases_of_root env rname fname xroot =
     (let suites = (if e_tag xroot = ''testsuites''
                    then findall_descendants ''testsuite'' xroot else [xroot])
      in map_err (parse_testcase env rname fname)
                 (concat (map (findall_children ''testcase'') suites)))"

text \<open>
  The first loop of \<open>junit_to_allure_results\<close>. An error carries the file system as it
  is when the exception leaves the script.
\<close>

fun collect :: "'f env \<Rightarrow> (string \<times> string) list \<Rightarrow> world
                  \<Rightarrow> (error \<times> world) + ('f test_case list \<times> world)" where
  "collect env [] w = Inr ([], w)"
| "collect env ((rname, fname) # rest) w =
     (case reports w rname of
        None \<Rightarrow> collect env rest w
      | Some Malformed \<Rightarrow> Inl (ParseError, w)
      | Some (Parsed xroot) \<Rightarrow>
          (case cases_of_root env rname fname xroot of
             Inl e \<Rightarrow> Inl (e, w)
           | Inr cs \<Rightarrow>
               (case collect env rest (w\<lparr>reports := (reports w)(rname := None)\<rparr>) of
                  Inl e \<Rightarrow> Inl e
                | Inr (cs', w') \<Rightarrow> Inr (cs @ cs', w'))))"

section \<open>The failed step\<close>

text \<open>The inner \<open>for idx, step_name in enumerate(step_names)\<close> with its \<open>break\<close>.\<close>

fun first_index :: "('a \<Rightarrow> bool) \<Rightarrow> 'a list \<Rightarrow> nat option" where
  "first_index P [] = None"
| "first_index P (x # xs) =
     (if P x then Some 0 else map_option Suc (first_index P xs))"

text \<open>
  The outer \<open>for part in re.findall(...)\<close>: \<open>continue\<close> when the inner loop ends without
  \<open>break\<close>, \<open>break\<close> otherwise.
\<close>

fun scan_parts :: "string list \<Rightarrow> string list \<Rightarrow> int \<Rightarrow> int" where
  "scan_parts [] step_names failed_step_index = failed_step_index"
| "scan_parts (part # parts) step_names failed_step_index =
     (if length part > 2
      then (case first_index (contains part) step_names of
              Some idx \<Rightarrow> int idx
            | None \<Rightarrow> scan_parts parts step_names failed_step_index)
      else scan_parts parts step_names failed_step_index)"

definition failed_step_index :: "string \<Rightarrow> status_details option \<Rightarrow> string list \<Rightarrow> int" where
  "failed_step_index status details step_names =
     (let num_steps = int (length step_names);
          dflt = num_steps - 1
      in case details of
           Some sd \<Rightarrow>
             if status = ''failed''
             then scan_parts (findall quoted_re (sd_message sd @ '' '' @ sd_trace sd))
                             step_names dflt
             else dflt
         | None \<Rightarrow> dflt)"

section \<open>The step records\<close>

definition make_step ::
  "int \<Rightarrow> int \<Rightarrow> string \<Rightarrow> status_details option \<Rightarrow> int \<Rightarrow> nat \<times> string \<Rightarrow> step" where
  "make_step start_ms step_duration_ms status details fidx p =
     (let i = int (fst p);
          s_start = start_ms + i * step_duration_ms;
          s_stop = s_start + step_duration_ms;
          step_status = (if status \<noteq> ''failed'' then ''passed''
                         else if i = fidx then ''failed''
                         else if i > fidx then ''skipped''
                         else ''passed'')
      in \<lparr>s_name = snd p, s_status = step_status, s_start = s_start, s_stop = s_stop,
          s_statusDetails = (if status = ''failed'' \<and> i = fidx then details else None),
          s_attachments = None\<rparr>)"

text \<open>The loop over \<open>enumerate(step_names)\<close>, once \<open>step_duration_ms\<close> is known.\<close>

definition build_steps ::
  "int \<Rightarrow> int \<Rightarrow> string \<Rightarrow> status_details option \<Rightarrow> int \<Rightarrow> string list \<Rightarrow> step list" where
  "build_steps start_ms step_duration_ms status details fidx step_names =
     map (make_step start_ms step_duration_ms status details fidx) (enumerate 0 step_names)"

section \<open>The screenshot\<close>

fun latest_loop :: "file_entry list \<Rightarrow> file_entry option \<Rightarrow> rat \<Rightarrow> file_entry option" where
  "latest_loop [] latest latest_mtime = latest"
| "latest_loop (f # fs) latest latest_mtime =
     (if f_is_file f \<and> lower (f_suffix f) \<in> set IMAGE_EXTENSIONS
      then (let m = f_mtime f
            in if m > latest_mtime then latest_loop fs (Some f) m
               else latest_loop fs latest latest_mtime)
      else latest_loop fs latest latest_mtime)"

text \<open>The directory is its listing, \<open>None\<close> when it does not exist.\<close>

definition find_latest_screenshot :: "file_entry list option \<Rightarrow> file_entry option" where
  "find_latest_screenshot maestro_dir =
     (case maestro_dir of
        None \<Rightarrow> None
      | Some entries \<Rightarrow> latest_loop entries None 0)"

definition copy_screenshot_to_allure ::
  "file_entry list option \<Rightarrow> string \<Rightarrow> world \<Rightarrow> (string \<times> string) option \<times> world" where
  "copy_screenshot_to_allure maestro_dir attachment_uuid w =
     (case find_latest_screenshot maestro_dir of
        None \<Rightarrow> (None, w)
      | Some src \<Rightarrow>
          (let ext = lower (f_suffix src);
               mime = (case map_of IMAGE_MIME ext of Some m \<Rightarrow> m | None \<Rightarrow> ''image/png'');
               dest = attachment_uuid @ ''-attachment'' @ ext
           in (Some (dest, mime), w\<lparr>copied := copied w @ [(f_path src, dest)]\<rparr>)))"

section \<open>Emitting the records\<close>

text \<open>\<open>str(uuid.uuid4()).replace("-", "")[:24]\<close>, and the world after the call.\<close>

definition fresh_uid :: "'f env \<Rightarrow> world \<Rightarrow> string \<times> world" where
  "fresh_uid env w =
     (take 24 (replace ''-'' [] (uuid4 env (uuid_ctr w))), w\<lparr>uuid_ctr := Suc (uuid_ctr w)\<rparr>)"

text \<open>
  \<open>step_objects[idx]["attachments"] = atts\<close>: a negative index counts from the end, an
  index out of range raises.
\<close>

definition set_step_attachments :: "step list \<Rightarrow> int \<Rightarrow> attachment list \<Rightarrow> error + step list" where
  "set_step_attachments step_objects idx atts =
     (let n = int (length step_objects);
          j = (if idx < 0 then n + idx else idx)
      in if 0 \<le> j \<and> j < n
         then Inr (step_objects[nat j := (step_objects ! nat j)\<lparr>s_attachments := Some atts\<rparr>])
         else Inl IndexError)"

definition write_result :: "allure_result \<Rightarrow> world \<Rightarrow> world" where
  "write_result result w = w\<lparr>written := written w @ [(r_uuid result @ ''-result.json'', result)]\<rparr>"

text \<open>
  The screenshot block. \<open>result["steps"]\<close> is the list \<open>step_objects\<close> itself, so the
  record that is written has the step as the assignment leaves it.
\<close>

definition attach_screenshot ::
  "'f env \<Rightarrow> 'f test_case \<Rightarrow> int \<Rightarrow> allure_result \<Rightarrow> world
     \<Rightarrow> (error \<times> world) + (allure_result \<times> world)" where
  "attach_screenshot env c fidx result w =
     (if tc_status c = ''failed'' \<and> map_of REPORT_TO_MAESTRO_DIR (report_name c) \<noteq> None
      then (let maestro_dir = maestro w (the (map_of REPORT_TO_MAESTRO_DIR (report_name c)));
                (att_uuid, w1) = fresh_uid env w;
                (attachment_info, w2) = copy_screenshot_to_allure maestro_dir att_uuid w1
            in case attachment_info of
                 None \<Rightarrow> Inr (result, w2)
               | Some (source_name, mime_type) \<Rightarrow>
                   (let att = \<lparr>a_name = ''Screenshot (failure)'', a_source = source_name,
                               a_type = mime_type\<rparr>;
                        result = result\<lparr>r_attachments := Some [att]\<rparr>
                    in if fidx < int (length (r_steps result))
                       then (case set_step_attachments (r_steps result) fidx [att] of
                               Inl e \<Rightarrow> Inl (e, w2)
                             | Inr step_objects \<Rightarrow> Inr (result\<lparr>r_steps := step_objects\<rparr>, w2))
                       else Inr (result, w2)))
      else Inr (result, w))"

text \<open>
  One turn of the second loop: the new \<open>base_start_ms\<close> and the world, or the error.
  \<open>int(time_sec * 1000)\<close> and \<open>int(time_sec * 1000 / max(len(step_names), 1))\<close> may raise.
\<close>

definition emit_case ::
  "'f env \<Rightarrow> int \<Rightarrow> 'f test_case \<Rightarrow> world \<Rightarrow> (error \<times> world) + (int \<times> world)" where
  "emit_case env base_start_ms c w =
     (let step_names = steps_from_flow_yaml (flows w) (flow_name c);
          start_ms = base_start_ms
      in case pyint env (fmul env (time_sec c) 1000) of
           Inl e \<Rightarrow> Inl (e, w)
         | Inr ms \<Rightarrow>
            (let stop_ms = base_start_ms + ms;
                 (uid, w1) = fresh_uid env w;
                 name = tc_name c;
                 status = tc_status c;
                 fidx = failed_step_index status (tc_details c) step_names
             in case pyint env (fdiv env (fmul env (time_sec c) 1000)
                                         (int (max (length step_names) 1))) of
                  Inl e \<Rightarrow> Inl (e, w1)
                | Inr step_duration_ms \<Rightarrow>
                   (let step_objects = build_steps start_ms step_duration_ms status
                                                   (tc_details c) fidx step_names;
                        result = \<lparr>r_uuid = uid,
                                  r_historyId = ''Test Suite:'' @ name @ ''#'' @ name,
                                  r_fullName = ''Test Suite:'' @ name,
                                  r_name = name, r_status = status,
                                  r_start = start_ms, r_stop = stop_ms,
                                  r_labels = [(''suite'', ''Test Suite''), (''testClass'', name),
                                              (''package'', name)],
                                  r_steps = step_objects,
                                  r_statusDetails =
                                    (if status = ''failed'' then tc_details c else None),
                                  r_attachments = None\<rparr>
                    in case attach_screenshot env c fidx result w1 of
                         Inl e \<Rightarrow> Inl e
                       | Inr (result, w2) \<Rightarrow> Inr (stop_ms, write_result result w2))))"

fun emit_cases ::
  "'f env \<Rightarrow> int \<Rightarrow> 'f test_case list \<Rightarrow> world \<Rightarrow> (error \<times> world) + (int \<times> world)" where
  "emit_cases env base_start_ms [] w = Inr (base_start_ms, w)"
| "emit_cases env base_start_ms (c # cs) w =
     (case emit_case env base_start_ms c w of
        Inl e \<Rightarrow> Inl e
      | Inr (base', w') \<Rightarrow> emit_cases env base' cs w')"

text \<open>\<open>os.chdir(ROOT)\<close> and \<open>RESULTS_DIR.mkdir(parents=True, exist_ok=True)\<close>\<close>

definition chdir_mkdir :: "world \<Rightarrow> world" where
  "chdir_mkdir w = w\<lparr>cwd_is_root := True, results_dir_exists := True\<rparr>"

definition junit_to_allure_results :: "'f env \<Rightarrow> world \<Rightarrow> (error \<times> world) + world" where
  "junit_to_allure_results env w =
     (case collect env REPORT_TO_FLOW_ORDER (chdir_mkdir w) of
        Inl e \<Rightarrow> Inl e
      | Inr (cases, w1) \<Rightarrow>
          if cases = [] then Inr w1
          else (let total_sec = fsum env (map time_sec cases)
                in case pyint env (fmul env total_sec 1000) of
                     Inl e \<Rightarrow> Inl (e, w1)
                   | Inr total_ms \<Rightarrow>
                      (let base_start_ms = now_ms env - total_ms
                       in case emit_cases env base_start_ms cases w1 of
                            Inl e \<Rightarrow> Inl e
                          | Inr (b, w2) \<Rightarrow> Inr w2)))"

section \<open>Notions used in the statements\<close>

text \<open>
  \<open>step_core\<close> is a step without its attachments key, the only key the screenshot block
  touches. \<open>emitted\<close>, \<open>outcome\<close> and \<open>collected\<close> read a result: the records written, the
  exception raised, the test cases collected. \<open>result_file\<close> is the file a record is written to.
\<close>

definition step_core :: "step \<Rightarrow> string \<times> string \<times> int \<times> int \<times> status_details option" where
  "step_core s = (s_name s, s_status s, s_start s, s_stop s, s_statusDetails s)"

definition emitted :: "(error \<times> world) + (int \<times> world) \<Rightarrow> allure_result list" where
  "emitted x = (case x of Inl _ \<Rightarrow> [] | Inr (b, w) \<Rightarrow> map snd (written w))"

definition outcome :: "(error \<times> world) + (int \<times> world) \<Rightarrow> error option" where
  "outcome x = (case x of Inl (e, w) \<Rightarrow> Some e | Inr _ \<Rightarrow> None)"


definition result_file :: "allure_result \<Rightarrow> string \<times> allure_result" where
  "result_file r = (r_uuid r @ ''-result.json'', r)"

text \<open>
  The same for a whole run: the exception it raised, if any, and the records that are in the
  results directory when it ends, normally or not.
\<close>

definition run_error :: "(error \<times> world) + world \<Rightarrow> error option" where
  "run_error x = (case x of Inl (e, w) \<Rightarrow> Some e | Inr _ \<Rightarrow> None)"

definition run_written :: "(error \<times> world) + world \<Rightarrow> allure_result list" where
  "run_written x = (case x of Inl (e, w) \<Rightarrow> map snd (written w) | Inr w \<Rightarrow> map snd (written w))"

text \<open>Back-to-back windows: every record starts where the one before it stopped.\<close>

fun back_to_back :: "int \<Rightarrow> allure_result list \<Rightarrow> bool" where
  "back_to_back b [] = True"
| "back_to_back b (r # rs) = (r_start r = b \<and> back_to_back (r_stop r) rs)"

text \<open>The files \<open>find_latest_screenshot\<close> looks at: regular files with an image extension.\<close>

definition is_image :: "file_entry \<Rightarrow> bool" where
  "is_image f = (f_is_file f \<and> lower (f_suffix f) \<in> set IMAGE_EXTENSIONS)"

definition images :: "file_entry list \<Rightarrow> file_entry list" where
  "images entries = filter is_image entries"

text \<open>
  The candidates of the failure correlator, read off left to right without \<open>re\<close>: a
  candidate runs from an opening quote up to the next quote, if there is one and something
  stands in between, and the scan goes on behind the closing quote. Two adjacent quotes
  enclose nothing, the first of them opens no candidate, and the second one may open the
  next candidate. These are the successive matches of \<open>"([^"]+)"\<close>, as is proved below.
\<close>

function quoted_candidates :: "string \<Rightarrow> string list" where
  "quoted_candidates s =
     (case dropWhile (\<lambda>c. c \<noteq> dq) s of
        [] \<Rightarrow> []
      | q # rest \<Rightarrow>
          (let body = takeWhile (\<lambda>c. c \<noteq> dq) rest;
               after = dropWhile (\<lambda>c. c \<noteq> dq) rest
           in if after = [] then []
              else if body = [] then quoted_candidates rest
              else body # quoted_candidates (tl after)))"
  by pat_completeness auto
termination
proof (relation "measure length", goal_cases)
  case 1
  then show ?case by simp
next
  case (2 s q rest body after)
  have "length (dropWhile (\<lambda>c. c \<noteq> dq) s) \<le> length s" by (rule length_dropWhile_le)
  with 2 show ?case by simp
next
  case (3 s q rest body after)
  have "length (dropWhile (\<lambda>c. c \<noteq> dq) s) \<le> length s" by (rule length_dropWhile_le)
  moreover have "length (dropWhile (\<lambda>c. c \<noteq> dq) rest) \<le> length rest" by (rule length_dropWhile_le)
  ultimately show ?case using 3 by (cases after) auto
qed

text \<open>
  The failure correlator over these candidates, taken from the message, one blank and the
  trace: the first candidate longer than two characters that occurs in some step selects
  the first step that contains it; with no such candidate the last index stands.
  \<^const>\<open>sublist\<close> is the literal substring relation.
\<close>

definition corrected_failure_index :: "string \<Rightarrow> string \<Rightarrow> string list \<Rightarrow> int" where
  "corrected_failure_index message trace step_names =
     (case List.find (\<lambda>part. length part > 2 \<and> (\<exists>s\<in>set step_names. sublist part s))
                     (quoted_candidates (message @ '' '' @ trace)) of
        None \<Rightarrow> int (length step_names) - 1
      | Some part \<Rightarrow> int (length (takeWhile (\<lambda>s. \<not> sublist part s) step_names)))"

text \<open>
  The failure correlator as section 4.3 of the specification words it. The double-quoted
  substrings of a text are what stands between the first and the second quote, between the
  third and the fourth, and so on; a last quote without a partner encloses nothing. They are
  taken from the message followed directly by the trace.
\<close>

fun quoted_scan :: "bool \<Rightarrow> string \<Rightarrow> string \<Rightarrow> string list" where
  "quoted_scan inside acc [] = []"
| "quoted_scan inside acc (c # cs) =
     (if c = dq
      then (if inside then rev acc # quoted_scan False [] cs else quoted_scan True [] cs)
      else quoted_scan inside (if inside then c # acc else acc) cs)"

definition paired_quoted :: "string \<Rightarrow> string list" where
  "paired_quoted s = quoted_scan False [] s"

definition claimed_failure_index :: "string \<Rightarrow> string \<Rightarrow> string list \<Rightarrow> int" where
  "claimed_failure_index message trace step_names =
     (case List.find (\<lambda>part. length part > 2 \<and> (\<exists>s\<in>set step_names. sublist part s))
                     (paired_quoted (message @ trace)) of
        None \<Rightarrow> int (length step_names) - 1
      | Some part \<Rightarrow> int (length (takeWhile (\<lambda>s. \<not> sublist part s) step_names)))"

section \<open>Example inputs\<close>

text \<open>
  An example runtime. Its floats are rational numbers with exact arithmetic, and \<open>trunc\<close>
  is \<open>int\<close> on a finite float, truncation towards zero. It is used below only on durations
  that are multiples of a power of two (0.125, 0.5, 0.75 and 1.0 seconds), for which every
  product, quotient and sum the script takes (125.0, 62.5, 750.0, 250.0, 1000.0, 500.0, 1.5,
  1500.0) is such a number again and is what the double arithmetic of the interpreter
  returns, without rounding. \<open>pyfloat\<close> is given on the three strings the example report
  holds.
\<close>

definition trunc :: "rat \<Rightarrow> int" where
  "trunc x = (if 0 \<le> x then \<lfloor>x\<rfloor> else \<lceil>x\<rceil>)"

definition env0 :: "rat env" where
  "env0 = \<lparr>pyfloat = (\<lambda>s. if s = ''1.0'' then Some 1 else if s = ''0.5'' then Some (1 / 2)
                          else if s = ''0.125'' then Some (1 / 8) else None),
           float_zero = 0,
           fsum = sum_list,
           fmul = (\<lambda>x k. x * of_int k),
           fdiv = (\<lambda>x k. x / of_int k),
           pyint = (\<lambda>x. Inr (trunc x)),
           now_ms = 1700000000000,
           uuid4 = (\<lambda>n. if n = 0 then ''0f8fad5b-d9cb-469f-a165-70867728950e''
                         else ''7c9e6679-7425-40de-944b-e07fc1f90ae7'')\<rparr>"

text \<open>
  The login flow of the specification's round-trip scenario, a flow of two steps, a
  run-output directory with two images, some failure details, and some file systems and
  test cases over them.
\<close>

definition login_flow :: "string list" where
  "login_flow = [''appId: com.example.app'', ''---'', ''- launchApp:'', ''- tapOn:'',
                 ''    id: '' @ [dq] @ ''login-button'' @ [dq], ''- assertVisible:'',
                 ''    text: '' @ [dq] @ ''Welcome'' @ [dq]]"

definition two_step_flow :: "string list" where
  "two_step_flow = [''appId: com.example.app'', ''---'', ''- launchApp:'', ''- tapOn: Login'']"

definition shots :: "file_entry list" where
  "shots = [\<lparr>f_path = ''maestro-assets/old.png'', f_is_file = True, f_suffix = ''.png'', f_mtime = 3\<rparr>,
            \<lparr>f_path = ''maestro-assets/run/Shot.PNG'', f_is_file = True, f_suffix = ''.PNG'', f_mtime = 5\<rparr>,
            \<lparr>f_path = ''maestro-assets/run/log.txt'', f_is_file = True, f_suffix = ''.txt'', f_mtime = 9\<rparr>,
            \<lparr>f_path = ''maestro-assets/run'', f_is_file = False, f_suffix = '''', f_mtime = 9\<rparr>]"

definition tap_failure :: status_details where
  "tap_failure = \<lparr>sd_message = ''Element '' @ [dq] @ ''Tap'' @ [dq] @ '' not found'', sd_trace = []\<rparr>"

definition empty_pair_failure :: status_details where
  "empty_pair_failure =
     \<lparr>sd_message = [dq, dq] @ '' not found near '' @ [dq] @ ''Tap'' @ [dq], sd_trace = []\<rparr>"

definition split_quote_failure :: status_details where
  "split_quote_failure =
     \<lparr>sd_message = ''tap '' @ [dq] @ ''Log'', sd_trace = ''in'' @ [dq] @ '' failed''\<rparr>"

definition w_demo :: world where
  "w_demo = \<lparr>cwd_is_root = False, results_dir_exists = True, reports = Map.empty,
             flows = [''assets_test.yaml'' \<mapsto> login_flow,
                      ''dashboard_test.yaml'' \<mapsto> two_step_flow],
             maestro = [''maestro-assets'' \<mapsto> shots],
             written = [], copied = [], uuid_ctr = 0\<rparr>"

definition w_empty :: world where
  "w_empty = \<lparr>cwd_is_root = False, results_dir_exists = False, reports = Map.empty,
              flows = Map.empty, maestro = Map.empty,
              written = [], copied = [], uuid_ctr = 0\<rparr>"

definition w_nocase :: world where
  "w_nocase = \<lparr>cwd_is_root = False, results_dir_exists = True,
               reports = [''assets_report'' \<mapsto> Parsed (Elem ''testsuite'' [] None [])],
               flows = Map.empty, maestro = Map.empty,
               written = [], copied = [], uuid_ctr = 0\<rparr>"

definition junit_report :: xml where
  "junit_report =
     Elem ''testsuites'' [] None
       [Elem ''testsuite'' [(''name'', ''Test Suite'')] None
          [Elem ''testcase'' [(''name'', ''login''), (''status'', ''SUCCESS''), (''time'', ''1.0'')] None [],
           Elem ''testcase'' [(''name'', ''logout''), (''status'', ''ERROR''), (''time'', ''0.5'')] None
             [Elem ''failure'' [(''message'', ''Element '' @ [dq] @ ''Tap'' @ [dq] @ '' not found'')]
                   None []]]]"

definition w_run :: world where
  "w_run = \<lparr>cwd_is_root = False, results_dir_exists = True,
            reports = [''assets_report'' \<mapsto> Parsed junit_report],
            flows = Map.empty, maestro = Map.empty,
            written = [], copied = [], uuid_ctr = 0\<rparr>"


definition c_failed :: "rat test_case" where
  "c_failed = \<lparr>report_name = ''assets_report'', flow_name = ''assets_test.yaml'',
               tc_name = ''login'', tc_status = ''failed'', time_sec = 3 / 4,
               tc_details = Some tap_failure\<rparr>"

definition c_short :: "rat test_case" where
  "c_short = \<lparr>report_name = ''dashboard_report'', flow_name = ''dashboard_test.yaml'',
              tc_name = ''dashboard'', tc_status = ''passed'', time_sec = 1 / 8,
              tc_details = None\<rparr>"

definition c_nosteps :: "rat test_case" where
  "c_nosteps = \<lparr>report_name = ''assets_report'', flow_name = ''missing.yaml'',
                tc_name = ''login'', tc_status = ''failed'', time_sec = 1,
                tc_details = Some tap_failure\<rparr>"

section \<open>Properties\<close>

subsection \<open>What one turn of the emitting loop writes\<close>

declare findall.simps [simp del]

declare quoted_candidates.simps [simp del]

lemma first_index_Some:
  "first_index P xs = Some i \<Longrightarrow> i < length xs \<and> P (xs ! i) \<and> (\<forall>j<i. \<not> P (xs ! j))"
proof (induction xs arbitrary: i)
  case Nil
  then show ?case by simp
next
  case (Cons x xs)
  show ?case
  proof (cases "P x")
    case True
    with Cons.prems show ?thesis by simp
  next
    case False
    with Cons.prems obtain k where k: "first_index P xs = Some k" "i = Suc k"
      by auto
    from Cons.IH[OF k(1)] False k(2) show ?thesis
      by (auto simp: nth_Cons split: nat.splits)
  qed
qed

lemma first_index_None: "first_index P xs = None \<longleftrightarrow> (\<forall>x\<in>set xs. \<not> P x)"
  by (induction xs) auto

lemma scan_parts_range:
  "0 \<le> d \<Longrightarrow> d < int (length steps) \<Longrightarrow>
     0 \<le> scan_parts ps steps d \<and> scan_parts ps steps d < int (length steps)"
proof (induction ps)
  case Nil
  then show ?case by simp
next
  case (Cons p ps)
  then show ?case
    by (auto split: option.splits dest: first_index_Some)
qed

lemma failed_step_index_range:
  "steps \<noteq> [] \<Longrightarrow> 0 \<le> failed_step_index st dt steps \<and> failed_step_index st dt steps < int (length steps)"
  using scan_parts_range[of "int (length steps) - 1" steps]
  by (auto simp: failed_step_index_def Let_def split: option.splits)

lemma length_build_steps [simp]: "length (build_steps s d st dt f names) = length names"
  by (simp add: build_steps_def)

lemma nth_build_steps:
  "i < length names \<Longrightarrow>
   build_steps s d st dt f names ! i = make_step s d st dt f (i, names ! i)"
  by (simp add: build_steps_def nth_enumerate_eq)

lemma set_step_attachments_core:
  "set_step_attachments xs idx atts = Inr ys \<Longrightarrow> map step_core ys = map step_core xs"
  by (auto simp: set_step_attachments_def Let_def step_core_def map_update list_update_same_conv
           split: if_splits)

lemma copy_screenshot_keeps:
  "copy_screenshot_to_allure d u w = (info, w') \<Longrightarrow>
     written w' = written w \<and> flows w' = flows w \<and> maestro w' = maestro w \<and> reports w' = reports w"
  by (auto simp: copy_screenshot_to_allure_def Let_def split: option.splits)

lemma attach_screenshot_Inr:
  assumes "attach_screenshot env c fidx result w = Inr (result', w')"
  shows "map step_core (r_steps result') = map step_core (r_steps result)
       \<and> r_start result' = r_start result \<and> r_stop result' = r_stop result
       \<and> r_status result' = r_status result \<and> r_statusDetails result' = r_statusDetails result
       \<and> r_uuid result' = r_uuid result \<and> r_name result' = r_name result
       \<and> written w' = written w \<and> flows w' = flows w \<and> maestro w' = maestro w"
  using assms
  by (auto simp: attach_screenshot_def Let_def fresh_uid_def split: if_splits prod.splits option.splits sum.splits
      dest!: copy_screenshot_keeps set_step_attachments_core)

lemma emit_case_Inr:
  assumes "emit_case env base c w = Inr (base', w')"
  shows "\<exists>r ms d. written w' = written w @ [(r_uuid r @ ''-result.json'', r)]
       \<and> pyint env (fmul env (time_sec c) 1000) = Inr ms
       \<and> pyint env (fdiv env (fmul env (time_sec c) 1000)
               (int (max (length (steps_from_flow_yaml (flows w) (flow_name c))) 1))) = Inr d
       \<and> base' = base + ms
       \<and> r_start r = base \<and> r_stop r = base' \<and> r_status r = tc_status c
       \<and> r_statusDetails r = (if tc_status c = ''failed'' then tc_details c else None)
       \<and> map step_core (r_steps r) =
           map step_core (build_steps base d (tc_status c) (tc_details c)
              (failed_step_index (tc_status c) (tc_details c)
                 (steps_from_flow_yaml (flows w) (flow_name c)))
              (steps_from_flow_yaml (flows w) (flow_name c)))
       \<and> flows w' = flows w \<and> maestro w' = maestro w"
  using assms
  by (auto simp: emit_case_def Let_def fresh_uid_def write_result_def split: sum.splits prod.splits
      dest!: attach_screenshot_Inr)

lemma emitted_steps:
  assumes e: "emit_case env base c w = Inr (base', w')"
    and n: "names = steps_from_flow_yaml (flows w) (flow_name c)"
  shows "\<exists>r ms d. written w' = written w @ [(r_uuid r @ ''-result.json'', r)]
       \<and> pyint env (fmul env (time_sec c) 1000) = Inr ms
       \<and> pyint env (fdiv env (fmul env (time_sec c) 1000) (int (max (length names) 1))) = Inr d
       \<and> r_start r = base \<and> r_stop r = base + ms
       \<and> r_status r = tc_status c
       \<and> length (r_steps r) = length names
       \<and> (\<forall>i<length names. step_core (r_steps r ! i) =
             step_core (make_step base d (tc_status c) (tc_details c)
                (failed_step_index (tc_status c) (tc_details c) names) (i, names ! i)))"
proof -
  from emit_case_Inr[OF e] obtain r ms d where r:
    "written w' = written w @ [(r_uuid r @ ''-result.json'', r)]"
    "pyint env (fmul env (time_sec c) 1000) = Inr ms"
    "pyint env (fdiv env (fmul env (time_sec c) 1000) (int (max (length names) 1))) = Inr d"
    "base' = base + ms" "r_start r = base" "r_stop r = base'"
    "r_status r = tc_status c"
    "map step_core (r_steps r) =
       map step_core (build_steps base d (tc_status c) (tc_details c)
          (failed_step_index (tc_status c) (tc_details c) names) names)"
    unfolding n by blast
  from r(8) have len: "length (r_steps r) = length names"
    using length_map[of step_core "r_steps r"] by simp
  have "step_core (r_steps r ! i) =
        step_core (make_step base d (tc_status c) (tc_details c)
                (failed_step_index (tc_status c) (tc_details c) names) (i, names ! i))"
    if "i < length names" for i
  proof -
    have "step_core (r_steps r ! i) = map step_core (r_steps r) ! i"
      using that len by simp
    also have "\<dots> = step_core (build_steps base d (tc_status c) (tc_details c)
          (failed_step_index (tc_status c) (tc_details c) names) names ! i)"
      unfolding r(8) using that by simp
    finally show ?thesis using that by (simp add: nth_build_steps)
  qed
  with r len show ?thesis by blast
qed

lemma collect_keeps:
  "collect env l w = Inr (cs, w1) \<Longrightarrow>
     written w1 = written w \<and> copied w1 = copied w \<and> flows w1 = flows w \<and> maestro w1 = maestro w"
proof (induction l arbitrary: w cs w1)
  case Nil
  then show ?case by simp
next
  case (Cons p l)
  obtain rname fname where p: "p = (rname, fname)" by (cases p)
  show ?case
  proof (cases "reports w rname")
    case None
    with Cons.prems p have "collect env l w = Inr (cs, w1)" by simp
    from Cons.IH[OF this] show ?thesis .
  next
    case (Some rf)
    with Cons.prems p obtain cs' where
      "collect env l (w\<lparr>reports := (reports w)(rname := None)\<rparr>) = Inr (cs', w1)"
      by (auto split: report_file.splits sum.splits)
    from Cons.IH[OF this] show ?thesis by simp
  qed
qed

subsection \<open>Status derivation\<close>

text \<open>
  Claim C1: a failure or error child makes the test case \<open>failed\<close> whatever the status
  attribute says. The script reads the attribute first and defaults it to \<open>SUCCESS\<close>, so a
  test case with a \<open><failure>\<close> child and no status attribute (or the attribute
  \<open>success\<close>) comes out \<open>passed\<close>, with its failure detail captured all the same. The
  branch commented "Maestro may only write <failure> without status attribute" is reached
  only for an attribute that is neither \<open>success\<close> nor \<open>failure\<close>.
\<close>

theorem status_with_failure_child_passed:
  "derive_status None True = ''passed''
   \<and> derive_status (Some ''success'') True = ''passed''
   \<and> map_sum id tc_status
        (parse_testcase env ''assets_report'' ''assets_test.yaml''
           (Elem ''testcase'' [(''name'', ''login'')] None
              [Elem ''failure'' [(''message'', ''boom'')] None []])) = Inr ''passed''
   \<and> map_sum id tc_details
        (parse_testcase env ''assets_report'' ''assets_test.yaml''
           (Elem ''testcase'' [(''name'', ''login'')] None
              [Elem ''failure'' [(''message'', ''boom'')] None []]))
       = Inr (Some \<lparr>sd_message = ''boom'', sd_trace = []\<rparr>)"
  by code_simp

subsection \<open>Step statuses\<close>

text \<open>
  Claim C2: for an emitted test case with at least one step, a passed test has only passed
  steps and no step carries a failure detail; a failed test with a failure detail has passed
  steps before the correlated index, the failed step with the detail at it, and skipped steps
  after it. The index is within the steps, which is proved rather than assumed.
\<close>

theorem step_status_policy:
  assumes e: "emit_case env base c w = Inr (base', w')"
    and n: "names = steps_from_flow_yaml (flows w) (flow_name c)"
    and k: "1 \<le> length names"
  shows "\<exists>r. written w' = written w @ [(r_uuid r @ ''-result.json'', r)]
       \<and> r_status r = tc_status c \<and> length (r_steps r) = length names
       \<and> (tc_status c = ''passed'' \<longrightarrow>
            (\<forall>i<length names. s_status (r_steps r ! i) = ''passed''
                              \<and> s_statusDetails (r_steps r ! i) = None))
       \<and> (\<forall>d. tc_status c = ''failed'' \<and> tc_details c = Some d \<longrightarrow>
            (\<exists>f<length names. int f = failed_step_index (tc_status c) (tc_details c) names
               \<and> (\<forall>i<f. s_status (r_steps r ! i) = ''passed'')
               \<and> s_status (r_steps r ! f) = ''failed''
               \<and> s_statusDetails (r_steps r ! f) = Some d
               \<and> (\<forall>i. f < i \<and> i < length names \<longrightarrow> s_status (r_steps r ! i) = ''skipped'')))"
proof -
  let ?fi = "failed_step_index (tc_status c) (tc_details c) names"
  from emitted_steps[OF e n] obtain r dur where r:
    "written w' = written w @ [(r_uuid r @ ''-result.json'', r)]"
    "r_status r = tc_status c" "length (r_steps r) = length names"
    and core: "\<And>i. i < length names \<Longrightarrow> step_core (r_steps r ! i) =
             step_core (make_step base dur (tc_status c) (tc_details c) ?fi (i, names ! i))"
    by blast
  have st: "s_status (r_steps r ! i) =
              (if tc_status c \<noteq> ''failed'' then ''passed''
               else if int i = ?fi then ''failed''
               else if int i > ?fi then ''skipped'' else ''passed'')"
    and dt: "s_statusDetails (r_steps r ! i) =
              (if tc_status c = ''failed'' \<and> int i = ?fi then tc_details c else None)"
    if "i < length names" for i
    using core[OF that] by (simp_all add: step_core_def make_step_def Let_def)
  have passed: "\<forall>i<length names. s_status (r_steps r ! i) = ''passed''
                              \<and> s_statusDetails (r_steps r ! i) = None"
    if "tc_status c = ''passed''"
    using that st dt by simp
  have failed: "\<exists>f<length names. int f = ?fi
               \<and> (\<forall>i<f. s_status (r_steps r ! i) = ''passed'')
               \<and> s_status (r_steps r ! f) = ''failed''
               \<and> s_statusDetails (r_steps r ! f) = Some d
               \<and> (\<forall>i. f < i \<and> i < length names \<longrightarrow> s_status (r_steps r ! i) = ''skipped'')"
    if f: "tc_status c = ''failed''" and d: "tc_details c = Some d" for d
  proof -
    from k have "names \<noteq> []" by auto
    from failed_step_index_range[OF this, of "tc_status c" "tc_details c"]
    have ff: "nat ?fi < length names" "int (nat ?fi) = ?fi"
      by linarith+
    define f where "f = nat ?fi"
    note ff = ff[folded f_def]
    have "\<forall>i<f. s_status (r_steps r ! i) = ''passed''"
      using ff f st by auto
    moreover have "s_status (r_steps r ! f) = ''failed''"
      using ff f st by simp
    moreover have "s_statusDetails (r_steps r ! f) = Some d"
      using ff f d dt by simp
    moreover have "\<forall>i. f < i \<and> i < length names \<longrightarrow> s_status (r_steps r ! i) = ''skipped''"
      using ff f st by auto
    ultimately show ?thesis using ff by blast
  qed
  from r passed failed show ?thesis by blast
qed

lemma demo_steps:
  "steps_from_flow_yaml (flows w_demo) (flow_name c_failed)
     = [''Launch app (clear state)'', ''Tap'', ''Assert visible: Welcome'']"
  by code_simp

lemma demo_failed_ok: "\<not> isl (emit_case env0 0 c_failed w_demo)"
  by code_simp

lemma demo_index:
  "failed_step_index ''failed'' (Some tap_failure)
     [''Launch app (clear state)'', ''Tap'', ''Assert visible: Welcome''] = 1"
  by code_simp

theorem step_status_policy_witness:
  "\<exists>b w' r. emit_case env0 0 c_failed w_demo = Inr (b, w')
     \<and> written w' = [(r_uuid r @ ''-result.json'', r)]
     \<and> length (r_steps r) = 3
     \<and> s_status (r_steps r ! 0) = ''passed''
     \<and> s_status (r_steps r ! 1) = ''failed''
     \<and> s_statusDetails (r_steps r ! 1) = Some tap_failure
     \<and> s_status (r_steps r ! 2) = ''skipped''"
proof -
  from demo_failed_ok obtain b w' where e: "emit_case env0 0 c_failed w_demo = Inr (b, w')"
    by (cases "emit_case env0 0 c_failed w_demo") auto
  have st: "tc_status c_failed = ''failed''" and dt: "tc_details c_failed = Some tap_failure"
    by (simp_all add: c_failed_def)
  have w: "written w_demo = []" by (simp add: w_demo_def)
  from step_status_policy[OF e demo_steps[symmetric]]
  obtain r where r: "written w' = written w_demo @ [(r_uuid r @ ''-result.json'', r)]"
    "length (r_steps r) = 3"
    and f: "\<exists>f<3. int f = 1
               \<and> (\<forall>i<f. s_status (r_steps r ! i) = ''passed'')
               \<and> s_status (r_steps r ! f) = ''failed''
               \<and> s_statusDetails (r_steps r ! f) = Some tap_failure
               \<and> (\<forall>i. f < i \<and> i < 3 \<longrightarrow> s_status (r_steps r ! i) = ''skipped'')"
    unfolding st dt demo_index by auto
  from f obtain k where k: "int k = 1" "\<forall>i<k. s_status (r_steps r ! i) = ''passed''"
      "s_status (r_steps r ! k) = ''failed''" "s_statusDetails (r_steps r ! k) = Some tap_failure"
      "\<forall>i. k < i \<and> i < 3 \<longrightarrow> s_status (r_steps r ! i) = ''skipped''"
    by blast
  from k(1) have k1: "k = 1" by simp
  from k(2-5) have "s_status (r_steps r ! 0) = ''passed''" "s_status (r_steps r ! 1) = ''failed''"
    "s_statusDetails (r_steps r ! 1) = Some tap_failure" "s_status (r_steps r ! 2) = ''skipped''"
    unfolding k1 by simp_all
  with e r w show ?thesis by auto
qed

subsection \<open>Step windows\<close>

text \<open>
  Claim C3, as amended: the steps of an emitted test case with \<open>K\<close> steps, \<open>K\<close> at least
  one, have windows of one length \<open>d = int(time_sec * 1000 / K)\<close>, as the runtime computes
  it, laid end to end from the start of the test: step \<open>i\<close> runs from \<open>start + i * d\<close> to
  \<open>start + (i + 1) * d\<close>. The last step stops at \<open>start + K * d\<close>, whereas the test stops
  at \<open>start + int(time_sec * 1000)\<close>; the last step is not stretched to the stop of the
  test. The statement holds for every float arithmetic.
\<close>

theorem step_windows:
  assumes e: "emit_case env base c w = Inr (base', w')"
    and n: "names = steps_from_flow_yaml (flows w) (flow_name c)"
    and k: "1 \<le> length names"
  shows "\<exists>r d ms. written w' = written w @ [(r_uuid r @ ''-result.json'', r)]
       \<and> length (r_steps r) = length names
       \<and> pyint env (fdiv env (fmul env (time_sec c) 1000) (int (length names))) = Inr d
       \<and> pyint env (fmul env (time_sec c) 1000) = Inr ms
       \<and> r_stop r = r_start r + ms
       \<and> (\<forall>i<length names. s_start (r_steps r ! i) = r_start r + int i * d
                           \<and> s_stop (r_steps r ! i) = r_start r + (int i + 1) * d)
       \<and> s_start (r_steps r ! 0) = r_start r
       \<and> (\<forall>i. Suc i < length names \<longrightarrow> s_start (r_steps r ! Suc i) = s_stop (r_steps r ! i))
       \<and> s_stop (last (r_steps r)) = r_start r + int (length names) * d"
proof -
  from k have mx: "max (length names) 1 = length names" by simp
  from emitted_steps[OF e n] obtain r ms d where r:
    "written w' = written w @ [(r_uuid r @ ''-result.json'', r)]"
    "pyint env (fmul env (time_sec c) 1000) = Inr ms"
    "pyint env (fdiv env (fmul env (time_sec c) 1000) (int (length names))) = Inr d"
    "r_start r = base" "r_stop r = base + ms"
    "length (r_steps r) = length names"
    and core: "\<And>i. i < length names \<Longrightarrow> step_core (r_steps r ! i) =
             step_core (make_step base d (tc_status c) (tc_details c)
                (failed_step_index (tc_status c) (tc_details c) names) (i, names ! i))"
    unfolding mx by blast
  have win: "s_start (r_steps r ! i) = r_start r + int i * d
           \<and> s_stop (r_steps r ! i) = r_start r + (int i + 1) * d"
    if "i < length names" for i
    using core[OF that] r(4)
    by (simp add: step_core_def make_step_def Let_def algebra_simps)
  from k have z: "0 < length names" by linarith
  have first: "s_start (r_steps r ! 0) = r_start r"
    using win[OF z] by simp
  have chain: "s_start (r_steps r ! Suc i) = s_stop (r_steps r ! i)"
    if "Suc i < length names" for i
  proof -
    from that have "i < length names" by simp
    from win[OF this] win[OF that] show ?thesis by (simp add: algebra_simps)
  qed
  have ne: "r_steps r \<noteq> []" using r(6) z by auto
  have l: "length names - 1 < length names" using z by simp
  have "last (r_steps r) = r_steps r ! (length names - 1)"
    using last_conv_nth[OF ne] r(6) by simp
  then have lst: "s_stop (last (r_steps r)) = r_start r + int (length names) * d"
    using win[OF l] z by (simp add: of_nat_diff algebra_simps)
  from r win first chain lst show ?thesis by blast
qed

lemma short_ok: "\<not> isl (emit_case env0 0 c_short w_demo)"
  by code_simp

lemma short_steps:
  "steps_from_flow_yaml (flows w_demo) (flow_name c_short)
     = [''Launch app (clear state)'', ''Tap: Login'']"
  by code_simp

theorem step_windows_witness:
  "\<exists>b w' r. emit_case env0 0 c_short w_demo = Inr (b, w')
     \<and> written w' = [(r_uuid r @ ''-result.json'', r)]
     \<and> length (r_steps r) = 2
     \<and> s_start (r_steps r ! 0) = r_start r \<and> s_stop (r_steps r ! 0) = r_start r + 62
     \<and> s_start (r_steps r ! 1) = r_start r + 62 \<and> s_stop (r_steps r ! 1) = r_start r + 124
     \<and> s_stop (last (r_steps r)) = r_start r + 124
     \<and> r_stop r = r_start r + 125"
proof -
  from short_ok obtain b w' where e: "emit_case env0 0 c_short w_demo = Inr (b, w')"
    by (cases "emit_case env0 0 c_short w_demo") auto
  have d: "pyint env0 (fdiv env0 (fmul env0 (time_sec c_short) 1000)
             (int (length [''Launch app (clear state)'', ''Tap: Login'']))) = Inr 62"
    by code_simp
  have m: "pyint env0 (fmul env0 (time_sec c_short) 1000) = Inr 125"
    by code_simp
  have w: "written w_demo = []" by (simp add: w_demo_def)
  from step_windows[OF e short_steps[symmetric]]
  obtain r where r: "written w' = written w_demo @ [(r_uuid r @ ''-result.json'', r)]"
    "length (r_steps r) = 2"
    "r_stop r = r_start r + 125"
    "\<forall>i<2. s_start (r_steps r ! i) = r_start r + int i * 62
           \<and> s_stop (r_steps r ! i) = r_start r + (int i + 1) * 62"
    "s_stop (last (r_steps r)) = r_start r + 2 * 62"
    unfolding d m by auto
  from r(4) have "s_start (r_steps r ! 0) = r_start r" "s_stop (r_steps r ! 0) = r_start r + 62"
     "s_start (r_steps r ! 1) = r_start r + 62" "s_stop (r_steps r ! 1) = r_start r + 124"
    by simp_all
  with e r(1,2,3,5) w show ?thesis by auto
qed

text \<open>
  A test of 0.125 seconds with two steps: the steps are 62 milliseconds each, the last one
  stops at 124 and the test at 125.
\<close>

theorem step_windows_counterexample:
  "map (s_stop \<circ> last \<circ> r_steps) (emitted (emit_case env0 0 c_short w_demo)) = [124]
   \<and> map r_stop (emitted (emit_case env0 0 c_short w_demo)) = [125]"
  by code_simp

subsection \<open>The round-trip scenario\<close>

text \<open>
  Claim C4: the login flow yields the steps "Launch app (clear state)", "Tap: login-button",
  "Assert visible: Welcome". The \<open>tapOn\<close> branch reads only the value on the command's own
  line, where the \<open>runFlow\<close> and \<open>assertVisible\<close> branches look at the indented lines
  that follow; the identifier on the next line is not seen and the step is the bare "Tap".
  Written without the list dash, the \<open>launchApp:\<close> line is no command at all.
\<close>

theorem login_flow_steps:
  "steps_from_flow_yaml [''login_test.yaml'' \<mapsto> login_flow] ''login_test.yaml''
     = [''Launch app (clear state)'', ''Tap'', ''Assert visible: Welcome'']
   \<and> steps_from_flow_yaml
         [''login_test.yaml'' \<mapsto> [''---'', ''launchApp:'', ''- tapOn:'',
              ''    id: '' @ [dq] @ ''login-button'' @ [dq], ''- assertVisible:'',
              ''    text: '' @ [dq] @ ''Welcome'' @ [dq]]] ''login_test.yaml''
     = [''Tap'', ''Assert visible: Welcome'']"
  by code_simp

subsection \<open>Failure correlation\<close>

text \<open>
  The pattern \<open>"([^"]+)"\<close> under \<open>findall\<close> finds the candidates of the left-to-right scan.
\<close>

lemma contains_sublist: "contains sub s \<longleftrightarrow> sublist sub s"
  by (induction s) (auto simp: sublist_Cons_right)

lemma first_some_None: "\<forall>x\<in>set xs. f x = None \<Longrightarrow> first_some (map f xs) = None"
  by (induction xs) auto

lemma rmatch_dq:
  "rmatch [Cls (\<lambda>c. c = dq) One False] t =
     (case t of [] \<Rightarrow> None | x # xs \<Rightarrow> if x = dq then Some ([], xs) else None)"
  by (cases t) auto

lemma rmatch_body:
  "rmatch [Cls (\<lambda>c. c \<noteq> dq) Plus True, Cls (\<lambda>c. c = dq) One False] cs =
     (let body = takeWhile (\<lambda>c. c \<noteq> dq) cs; after = dropWhile (\<lambda>c. c \<noteq> dq) cs
      in if after = [] \<or> body = [] then None else Some ([body], tl after))"
proof -
  let ?P = "\<lambda>c. c \<noteq> dq"
  let ?m = "length (takeWhile ?P cs)"
  let ?G = "\<lambda>n. case rmatch [Cls (\<lambda>c. c = dq) One False] (drop n cs) of
                    None \<Rightarrow> None
                  | Some (gs, r) \<Rightarrow> Some ((if True then [take n cs] else []) @ gs, r)"
  have unfold: "rmatch [Cls ?P Plus True, Cls (\<lambda>c. c = dq) One False] cs
                = first_some (map ?G (rev [1..<Suc ?m]))"
    by simp
  have low: "?G n = None" if "n < ?m" for n
  proof -
    from that have "n < length cs"
      using length_takeWhile_le[of ?P cs] by linarith
    then have d: "drop n cs = cs ! n # drop (Suc n) cs"
      by (simp add: Cons_nth_drop_Suc)
    from that have "takeWhile ?P cs ! n = cs ! n" by (rule takeWhile_nth)
    moreover from that have "takeWhile ?P cs ! n \<in> set (takeWhile ?P cs)" by simp
    ultimately have "cs ! n \<noteq> dq" using set_takeWhileD by metis
    with d show ?thesis by (simp del: rmatch.simps add: rmatch_dq)
  qed
  define after where "after = dropWhile ?P cs"
  define body where "body = takeWhile ?P cs"
  have dm: "drop ?m cs = after"
    unfolding after_def by (rule dropWhile_eq_drop[symmetric])
  have tm: "take ?m cs = body"
    unfolding body_def by (rule takeWhile_eq_take[symmetric])
  have hd_after: "x = dq" if "after = x # xs" for x xs
    using hd_dropWhile[of ?P cs] that unfolding after_def by auto
  have goal: "first_some (map ?G (rev [1..<Suc ?m]))
              = (if after = [] \<or> body = [] then None else Some ([body], tl after))"
  proof (cases "?m = 0")
    case True
    then have "body = []" unfolding body_def by simp
    with True show ?thesis by simp
  next
    case False
    then have b: "body \<noteq> []" unfolding body_def by auto
    from False have l: "rev [1..<Suc ?m] = ?m # rev [1..<?m]"
      by (simp add: Suc_le_eq)
    have rest: "first_some (map ?G (rev [1..<?m])) = None"
    proof (rule first_some_None, rule ballI)
      fix n
      assume "n \<in> set (rev [1..<?m])"
      then have "n < ?m" by simp
      then show "?G n = None" by (rule low)
    qed
    show ?thesis
    proof (cases after)
      case Nil
      have "?G ?m = None" unfolding dm rmatch_dq Nil by simp
      with l rest Nil show ?thesis by simp
    next
      case (Cons x xs)
      with hd_after have x: "x = dq" by simp
      have "?G ?m = Some ([body], xs)" unfolding dm tm rmatch_dq Cons x by simp
      with l Cons b show ?thesis by simp
    qed
  qed
  show ?thesis
    unfolding unfold goal Let_def after_def body_def ..
qed

lemma rmatch_quoted_Nil: "rmatch quoted_re [] = None"
  by (simp add: quoted_re_def)

lemma rmatch_quoted_Cons:
  "rmatch quoted_re (c # cs) =
     (if c = dq
      then (let body = takeWhile (\<lambda>c. c \<noteq> dq) cs; after = dropWhile (\<lambda>c. c \<noteq> dq) cs
            in if after = [] \<or> body = [] then None else Some ([body], tl after))
      else None)"
proof -
  have "rmatch quoted_re (c # cs) =
        first_some (map (\<lambda>n. case rmatch [Cls (\<lambda>c. c \<noteq> dq) Plus True, Cls (\<lambda>c. c = dq) One False]
                                      (drop n (c # cs)) of
                             None \<Rightarrow> None
                           | Some (gs, r) \<Rightarrow> Some ((if False then [take n (c # cs)] else []) @ gs, r))
                     (counts One (length (takeWhile (\<lambda>c. c = dq) (c # cs)))))"
    unfolding quoted_re_def by (subst rmatch.simps(3)) (rule refl)
  then show ?thesis
    by (cases "dropWhile (\<lambda>c. c \<noteq> dq) cs")
       (simp_all del: rmatch.simps dropWhile_eq_Nil_conv add: rmatch_body Let_def)
qed

lemma rsearch_quoted:
  "rsearch quoted_re s =
     (case dropWhile (\<lambda>c. c \<noteq> dq) s of
        [] \<Rightarrow> None
      | q # rest \<Rightarrow>
          (let body = takeWhile (\<lambda>c. c \<noteq> dq) rest;
               after = dropWhile (\<lambda>c. c \<noteq> dq) rest
           in if after = [] then None
              else if body = [] then rsearch quoted_re rest
              else Some ([body], tl after)))"
proof (induction s)
  case Nil
  then show ?case by (simp add: rmatch_quoted_Nil)
next
  case (Cons c cs)
  show ?case
  proof (cases "c = dq")
    case False
    then show ?thesis using Cons.IH by (simp add: rmatch_quoted_Cons)
  next
    case True
    show ?thesis
    proof (cases "dropWhile (\<lambda>c. c \<noteq> dq) cs = []")
      case emp: True
      then have "rsearch quoted_re cs = None"
        using Cons.IH by (simp del: dropWhile_eq_Nil_conv)
      with True emp show ?thesis
        by (simp del: dropWhile_eq_Nil_conv add: rmatch_quoted_Cons Let_def)
    next
      case False
      with True show ?thesis
        by (simp del: dropWhile_eq_Nil_conv add: rmatch_quoted_Cons Let_def)
    qed
  qed
qed

lemma rsearch_quoted_shorter:
  "rsearch quoted_re s = Some (gs, r) \<Longrightarrow> length r < length s"
proof (induction s)
  case Nil
  then show ?case by (simp add: rmatch_quoted_Nil)
next
  case (Cons c cs)
  show ?case
  proof (cases "rmatch quoted_re (c # cs)")
    case None
    with Cons.prems have "rsearch quoted_re cs = Some (gs, r)" by simp
    from Cons.IH[OF this] show ?thesis by simp
  next
    case (Some a)
    with Cons.prems have a: "rmatch quoted_re (c # cs) = Some (gs, r)" by simp
    then have r: "r = tl (dropWhile (\<lambda>c. c \<noteq> dq) cs)" and ne: "dropWhile (\<lambda>c. c \<noteq> dq) cs \<noteq> []"
      by (auto simp: rmatch_quoted_Cons Let_def split: if_splits)
    have "length (dropWhile (\<lambda>c. c \<noteq> dq) cs) \<le> length cs" by (rule length_dropWhile_le)
    with r ne show ?thesis by (cases "dropWhile (\<lambda>c. c \<noteq> dq) cs") auto
  qed
qed

lemma findall_quoted: "findall quoted_re s = quoted_candidates s"
proof (induction s rule: quoted_candidates.induct)
  case (1 s)
  show ?case
  proof (cases "dropWhile (\<lambda>c. c \<noteq> dq) s")
    case Nil
    then show ?thesis
      by (subst findall.simps, subst quoted_candidates.simps)
         (simp del: dropWhile_eq_Nil_conv add: rsearch_quoted)
  next
    case (Cons q rest)
    define body where "body = takeWhile (\<lambda>c. c \<noteq> dq) rest"
    define after where "after = dropWhile (\<lambda>c. c \<noteq> dq) rest"
    have ls: "length rest < length s"
      using length_dropWhile_le[of "\<lambda>c. c \<noteq> dq" s] Cons by simp
    have la: "length after \<le> length rest"
      unfolding after_def by (rule length_dropWhile_le)
    have qs: "quoted_candidates s =
                (if after = [] then []
                 else if body = [] then quoted_candidates rest
                 else body # quoted_candidates (tl after))"
      by (subst quoted_candidates.simps)
         (simp del: dropWhile_eq_Nil_conv add: Cons body_def after_def Let_def)
    have rs: "rsearch quoted_re s =
                (if after = [] then None
                 else if body = [] then rsearch quoted_re rest
                 else Some ([body], tl after))"
      by (subst rsearch_quoted)
         (simp del: dropWhile_eq_Nil_conv add: Cons body_def after_def Let_def)
    show ?thesis
    proof (cases "after = []")
      case True
      with qs rs show ?thesis by (subst findall.simps) simp
    next
      case False
      show ?thesis
      proof (cases "body = []")
        case True
        from "1.IH"(1)[OF Cons body_def after_def False True]
        have ih: "findall quoted_re rest = quoted_candidates rest" .
        have "findall quoted_re s = findall quoted_re rest"
        proof (cases "rsearch quoted_re rest")
          case None
          with rs False True show ?thesis
            by (subst findall.simps, subst (2) findall.simps) simp
        next
          case (Some a)
          obtain gs r where a: "a = (gs, r)" by (cases a)
          from rsearch_quoted_shorter[of rest gs r] Some a have "length r < length rest" by simp
          with ls Some a rs False True show ?thesis
            by (subst findall.simps, subst (2) findall.simps) simp
        qed
        with ih qs False True show ?thesis by simp
      next
        case nb: False
        from "1.IH"(2)[OF Cons body_def after_def False nb]
        have ih: "findall quoted_re (tl after) = quoted_candidates (tl after)" .
        have "length (tl after) < length s" using la ls by simp
        with rs False nb have "findall quoted_re s = body # findall quoted_re (tl after)"
          by (subst findall.simps) simp
        with ih qs False nb show ?thesis by simp
      qed
    qed
  qed
qed

lemma first_index_takeWhile:
  "first_index P xs =
     (if \<exists>x\<in>set xs. P x then Some (length (takeWhile (\<lambda>x. \<not> P x) xs)) else None)"
  by (induction xs) auto

lemma scan_parts_find:
  "scan_parts ps steps d =
     (case List.find (\<lambda>part. length part > 2 \<and> (\<exists>s\<in>set steps. sublist part s)) ps of
        None \<Rightarrow> d
      | Some part \<Rightarrow> int (length (takeWhile (\<lambda>s. \<not> sublist part s) steps)))"
  by (induction ps) (auto simp: first_index_takeWhile contains_sublist)

text \<open>
  Claim C5, as amended: for a failed test case with a failure detail and a step sequence
  that is not empty, the index defaults to the last step. The text scanned is the message,
  one blank and the trace. Its candidates are the successive matches of a quote, one or
  more characters other than a quote, and a quote, found left to right without overlap: a
  quote directly followed by a quote opens no candidate, and the second of the two may open
  the next one. The first candidate longer than two characters that is a literal substring
  of some step selects the first such step and ends the scan; candidates that occur in no
  step are passed over, and if none is found the last index stands.
\<close>

theorem failure_correlation:
  "step_names \<noteq> [] \<Longrightarrow>
   failed_step_index ''failed'' (Some d) step_names =
     corrected_failure_index (sd_message d) (sd_trace d) step_names"
  by (simp add: failed_step_index_def corrected_failure_index_def scan_parts_find findall_quoted Let_def)

theorem failure_correlation_witness:
  "[''Launch app (clear state)'', ''Tap'', ''Assert visible: Welcome''] \<noteq> []
   \<and> failed_step_index ''failed'' (Some tap_failure)
        [''Launch app (clear state)'', ''Tap'', ''Assert visible: Welcome''] = 1
   \<and> quoted_candidates (sd_message tap_failure @ '' '' @ sd_trace tap_failure) = [''Tap'']"
proof -
  have s: "corrected_failure_index (sd_message tap_failure) (sd_trace tap_failure)
             [''Launch app (clear state)'', ''Tap'', ''Assert visible: Welcome''] = 1"
    by code_simp
  have q: "quoted_candidates (sd_message tap_failure @ '' '' @ sd_trace tap_failure) = [''Tap'']"
    by code_simp
  from failure_correlation[of "[''Launch app (clear state)'', ''Tap'', ''Assert visible: Welcome'']" tap_failure]
  show ?thesis using s q by simp
qed

text \<open>
  Two failure details on which the index differs from the one the specification's wording
  gives. In \<open>"" not found near "Tap"\<close> the second quote of the empty pair opens the
  candidate \<open> not found near \<close>, whose closing quote is the one before \<open>Tap\<close>, so \<open>Tap\<close>
  is never a candidate and the last step is chosen instead of the second. With the message
  \<open>tap "Log\<close> and the trace \<open>in" failed\<close> the candidate is \<open>Log in\<close>, with the blank, which
  occurs in no step, where the concatenation has \<open>Login\<close>.
\<close>

theorem failure_correlation_counterexample:
  "failed_step_index ''failed'' (Some empty_pair_failure)
      [''Launch app (clear state)'', ''Tap'', ''Assert visible: Welcome''] = 2
   \<and> claimed_failure_index (sd_message empty_pair_failure) (sd_trace empty_pair_failure)
      [''Launch app (clear state)'', ''Tap'', ''Assert visible: Welcome''] = 1
   \<and> failed_step_index ''failed'' (Some split_quote_failure)
      [''Launch app (clear state)'', ''Tap: Login'', ''Assert visible: Welcome''] = 2
   \<and> claimed_failure_index (sd_message split_quote_failure) (sd_trace split_quote_failure)
      [''Launch app (clear state)'', ''Tap: Login'', ''Assert visible: Welcome''] = 1"
  by code_simp

subsection \<open>The timeline\<close>

lemma back_to_back_nth:
  "back_to_back b rs \<Longrightarrow> Suc i < length rs \<Longrightarrow> r_start (rs ! Suc i) = r_stop (rs ! i)"
proof (induction rs arbitrary: b i)
  case Nil
  then show ?case by simp
next
  case (Cons r rs)
  show ?case
  proof (cases i)
    case 0
    with Cons.prems show ?thesis by (cases rs) auto
  next
    case (Suc j)
    with Cons.prems Cons.IH[of "r_stop r" j] show ?thesis by simp
  qed
qed

lemma back_to_back_hd: "back_to_back b rs \<Longrightarrow> rs \<noteq> [] \<Longrightarrow> r_start (hd rs) = b"
  by (cases rs) auto

lemma emit_cases_Inr:
  assumes "emit_cases env base cs w = Inr (base', w')"
  shows "\<exists>rs. written w' = written w @ map result_file rs
       \<and> back_to_back base rs
       \<and> list_all2 (\<lambda>r c. pyint env (fmul env (time_sec c) 1000) = Inr (r_stop r - r_start r)) rs cs"
  using assms
proof (induction cs arbitrary: base w)
  case Nil
  then show ?case by simp
next
  case (Cons c cs)
  from Cons.prems obtain b1 w1 where
    e1: "emit_case env base c w = Inr (b1, w1)" and
    e2: "emit_cases env b1 cs w1 = Inr (base', w')"
    by (auto split: sum.splits)
  from emit_case_Inr[OF e1] obtain r ms where r:
    "written w1 = written w @ [result_file r]" "pyint env (fmul env (time_sec c) 1000) = Inr ms"
    "b1 = base + ms" "r_start r = base" "r_stop r = b1"
    unfolding result_file_def by blast
  from Cons.IH[OF e2] obtain rs where rs:
    "written w' = written w1 @ map result_file rs" "back_to_back b1 rs"
    "list_all2 (\<lambda>r c. pyint env (fmul env (time_sec c) 1000) = Inr (r_stop r - r_start r)) rs cs"
    by blast
  have "written w' = written w @ map result_file (r # rs)"
    using r(1) rs(1) by simp
  moreover have "back_to_back base (r # rs)"
    using r(4,5) rs(2) by simp
  moreover have "list_all2 (\<lambda>r c. pyint env (fmul env (time_sec c) 1000) = Inr (r_stop r - r_start r))
                   (r # rs) (c # cs)"
    using r(2,3,4,5) rs(3) by simp
  ultimately show ?case by blast
qed

text \<open>
  A run that collected test cases and returns has written one record per test case, in
  collection order; the first starts at the current time minus \<open>int(total_sec * 1000)\<close>,
  every other one starts where the one before it stopped, and each spans
  \<open>int(time_sec * 1000)\<close> milliseconds of its own duration, as the runtime computes it.
\<close>

lemma completed_run_timeline:
  assumes c: "collect env REPORT_TO_FLOW_ORDER (chdir_mkdir w) = Inr (cases, w1)"
    and ne: "cases \<noteq> []"
    and j: "junit_to_allure_results env w = Inr w'"
  shows "\<exists>rs total_ms. written w' = written w @ map result_file rs
       \<and> length rs = length cases
       \<and> pyint env (fmul env (fsum env (map time_sec cases)) 1000) = Inr total_ms
       \<and> r_start (hd rs) = now_ms env - total_ms
       \<and> (\<forall>i. Suc i < length rs \<longrightarrow> r_start (rs ! Suc i) = r_stop (rs ! i))
       \<and> (\<forall>i<length rs. pyint env (fmul env (time_sec (cases ! i)) 1000)
                               = Inr (r_stop (rs ! i) - r_start (rs ! i)))"
proof -
  from c ne j obtain total_ms b where
    t: "pyint env (fmul env (fsum env (map time_sec cases)) 1000) = Inr total_ms" and
    e: "emit_cases env (now_ms env - total_ms) cases w1 = Inr (b, w')"
    by (auto simp: junit_to_allure_results_def Let_def split: sum.splits)
  from collect_keeps[OF c] have w1: "written w1 = written w" by (simp add: chdir_mkdir_def)
  from emit_cases_Inr[OF e] obtain rs where rs:
    "written w' = written w1 @ map result_file rs" "back_to_back (now_ms env - total_ms) rs"
    "list_all2 (\<lambda>r c. pyint env (fmul env (time_sec c) 1000) = Inr (r_stop r - r_start r)) rs cases"
    by blast
  from rs(3) have len: "length rs = length cases" by (rule list_all2_lengthD)
  with ne have rne: "rs \<noteq> []" by auto
  have "\<forall>i<length rs. pyint env (fmul env (time_sec (cases ! i)) 1000)
                               = Inr (r_stop (rs ! i) - r_start (rs ! i))"
    using rs(3) by (simp add: list_all2_conv_all_nth)
  moreover have "\<forall>i. Suc i < length rs \<longrightarrow> r_start (rs ! Suc i) = r_stop (rs ! i)"
    using back_to_back_nth[OF rs(2)] by blast
  moreover have "r_start (hd rs) = now_ms env - total_ms"
    using back_to_back_hd[OF rs(2) rne] .
  ultimately show ?thesis using rs(1) w1 len t by auto
qed

lemma completed_run_example:
  "run_error (junit_to_allure_results env0 w_run) = None
   \<and> map r_start (run_written (junit_to_allure_results env0 w_run))
        = [1699999998500, 1699999999500]
   \<and> map r_stop (run_written (junit_to_allure_results env0 w_run))
        = [1699999999500, 1700000000000]"
  by code_simp


subsection \<open>Failure detail\<close>

text \<open>
  Claim C7: the trace is the body only when the body differs from the message, so that the
  two are never shown twice. The script compares the body with the message attribute, not
  with the message it ends up with: a marker with a body and no message attribute gets the
  body as its message and as its trace.
\<close>

theorem failure_detail_body_twice:
  "failure_details (Elem ''failure'' [] (Some ''boom'') [])
     = \<lparr>sd_message = ''boom'', sd_trace = ''boom''\<rparr>"
  by code_simp

subsection \<open>No test cases\<close>

lemma collect_absent:
  "\<forall>k\<in>set (map fst l). reports w k = None \<Longrightarrow> collect env l w = Inr ([], w)"
  by (induction l) auto

text \<open>
  Claim C8: when the report files that are present hold no test case, the run returns
  without an error and has written no record and copied no image; so it does when no report
  file is present, and then the file system is left as it was but for the results
  directory, which the run creates if it is missing.
\<close>

theorem empty_results:
  "(collect env REPORT_TO_FLOW_ORDER (chdir_mkdir w) = Inr ([], w1) \<longrightarrow>
      junit_to_allure_results env w = Inr w1 \<and> written w1 = written w \<and> copied w1 = copied w)
 \<and> ((\<forall>k\<in>set (map fst REPORT_TO_FLOW_ORDER). reports w k = None) \<longrightarrow>
      junit_to_allure_results env w = Inr (chdir_mkdir w))"
proof (intro conjI impI)
  assume c: "collect env REPORT_TO_FLOW_ORDER (chdir_mkdir w) = Inr ([], w1)"
  then show "junit_to_allure_results env w = Inr w1"
    by (simp add: junit_to_allure_results_def)
  from collect_keeps[OF c] show "written w1 = written w" "copied w1 = copied w"
    by (simp_all add: chdir_mkdir_def)
next
  assume "\<forall>k\<in>set (map fst REPORT_TO_FLOW_ORDER). reports w k = None"
  then have "\<forall>k\<in>set (map fst REPORT_TO_FLOW_ORDER). reports (chdir_mkdir w) k = None"
    by (simp add: chdir_mkdir_def)
  from collect_absent[OF this, of env] show "junit_to_allure_results env w = Inr (chdir_mkdir w)"
    by (simp add: junit_to_allure_results_def)
qed

theorem empty_results_witness:
  "junit_to_allure_results env0 w_nocase
      = Inr ((chdir_mkdir w_nocase)\<lparr>reports := (reports (chdir_mkdir w_nocase))(''assets_report'' := None)\<rparr>)
   \<and> written ((chdir_mkdir w_nocase)\<lparr>reports := (reports (chdir_mkdir w_nocase))(''assets_report'' := None)\<rparr>)
        = written w_nocase
   \<and> copied ((chdir_mkdir w_nocase)\<lparr>reports := (reports (chdir_mkdir w_nocase))(''assets_report'' := None)\<rparr>)
        = copied w_nocase
   \<and> junit_to_allure_results env0 w_empty = Inr (chdir_mkdir w_empty)"
proof -
  have c: "collect env0 REPORT_TO_FLOW_ORDER (chdir_mkdir w_nocase)
             = Inr ([], (chdir_mkdir w_nocase)\<lparr>reports := (reports (chdir_mkdir w_nocase))(''assets_report'' := None)\<rparr>)"
    by (simp add: REPORT_TO_FLOW_ORDER_def w_nocase_def chdir_mkdir_def cases_of_root_def
                  findall_children_def)
  have n: "\<forall>k\<in>set (map fst REPORT_TO_FLOW_ORDER). reports w_empty k = None"
    by (simp add: w_empty_def)
  from empty_results[of env0 w_nocase
         "(chdir_mkdir w_nocase)\<lparr>reports := (reports (chdir_mkdir w_nocase))(''assets_report'' := None)\<rparr>"] c
       empty_results[of env0 w_empty w_empty] n
  show ?thesis by blast
qed

subsection \<open>The screenshot copier\<close>

lemma latest_loop_keep:
  "\<forall>f\<in>set (images es). f_mtime f \<le> lm \<Longrightarrow> latest_loop es latest lm = latest"
  by (induction es arbitrary: latest lm) (auto simp: images_def is_image_def Let_def)

lemma latest_loop_pick:
  "\<exists>f\<in>set (images es). lm < f_mtime f \<Longrightarrow>
     \<exists>src\<in>set (images es). latest_loop es latest lm = Some src \<and> lm < f_mtime src
        \<and> (\<forall>f\<in>set (images es). f_mtime f \<le> f_mtime src)"
proof (induction es arbitrary: latest lm)
  case Nil
  then show ?case by (simp add: images_def)
next
  case (Cons e es)
  show ?case
  proof (cases "is_image e \<and> lm < f_mtime e")
    case True
    then have step: "latest_loop (e # es) latest lm = latest_loop es (Some e) (f_mtime e)"
      by (simp add: is_image_def Let_def)
    show ?thesis
    proof (cases "\<exists>f\<in>set (images es). f_mtime e < f_mtime f")
      case True
      from Cons.IH[OF True, of "Some e"] obtain src where
        "src \<in> set (images es)" "latest_loop es (Some e) (f_mtime e) = Some src"
        "f_mtime e < f_mtime src" "\<forall>f\<in>set (images es). f_mtime f \<le> f_mtime src"
        by blast
      with step \<open>is_image e \<and> lm < f_mtime e\<close> show ?thesis
        by (auto simp: images_def)
    next
      case False
      then have "\<forall>f\<in>set (images es). f_mtime f \<le> f_mtime e" by auto
      from latest_loop_keep[OF this] step \<open>is_image e \<and> lm < f_mtime e\<close> this
      show ?thesis by (auto simp: images_def)
    qed
  next
    case False
    then have step: "latest_loop (e # es) latest lm = latest_loop es latest lm"
      by (auto simp: is_image_def Let_def)
    from False Cons.prems have "\<exists>f\<in>set (images es). lm < f_mtime f"
      by (auto simp: images_def split: if_splits)
    from Cons.IH[OF this, of latest] obtain src where s:
      "src \<in> set (images es)" "latest_loop es latest lm = Some src"
      "lm < f_mtime src" "\<forall>f\<in>set (images es). f_mtime f \<le> f_mtime src"
      by blast
    have "f_mtime e \<le> f_mtime src" if "is_image e"
      using that False s(3) by auto
    with s step show ?thesis
      by (auto simp: images_def)
  qed
qed

lemma image_mime_total:
  "is_image f \<Longrightarrow> \<exists>m. map_of IMAGE_MIME (lower (f_suffix f)) = Some m"
  by (auto simp: is_image_def IMAGE_EXTENSIONS_def IMAGE_MIME_def)

text \<open>
  Claim C9, as amended: with no directory, or no image file in it, nothing is attached and
  nothing is copied. When some image file has a modification time after the epoch, an image
  file with the latest modification time is copied under the identifier, "-attachment" and
  its extension in lower case, and that name is returned with the MIME type the table gives
  for the lower-case extension. Nothing is said here of a directory whose image files all
  have a modification time of zero or less.
\<close>

theorem screenshot_copier:
  "((maestro_dir = None \<or> (\<exists>es. maestro_dir = Some es \<and> images es = []))
      \<longrightarrow> copy_screenshot_to_allure maestro_dir ident w = (None, w))
 \<and> (\<forall>es. maestro_dir = Some es \<and> (\<exists>f\<in>set (images es). 0 < f_mtime f) \<longrightarrow>
      (\<exists>src\<in>set (images es). \<exists>mime.
          (\<forall>f\<in>set (images es). f_mtime f \<le> f_mtime src)
        \<and> map_of IMAGE_MIME (lower (f_suffix src)) = Some mime
        \<and> copy_screenshot_to_allure maestro_dir ident w =
            (Some (ident @ ''-attachment'' @ lower (f_suffix src), mime),
             w\<lparr>copied := copied w @ [(f_path src, ident @ ''-attachment'' @ lower (f_suffix src))]\<rparr>)))"
proof (intro conjI impI allI)
  assume "maestro_dir = None \<or> (\<exists>es. maestro_dir = Some es \<and> images es = [])"
  then show "copy_screenshot_to_allure maestro_dir ident w = (None, w)"
  proof
    assume "maestro_dir = None"
    then show ?thesis
      by (simp add: copy_screenshot_to_allure_def find_latest_screenshot_def)
  next
    assume "\<exists>es. maestro_dir = Some es \<and> images es = []"
    then obtain es where es: "maestro_dir = Some es" "images es = []" by blast
    then have "latest_loop es None 0 = None"
      using latest_loop_keep[of es 0 None] by simp
    with es show ?thesis
      by (simp add: copy_screenshot_to_allure_def find_latest_screenshot_def)
  qed
next
  fix es
  assume a: "maestro_dir = Some es \<and> (\<exists>f\<in>set (images es). 0 < f_mtime f)"
  from latest_loop_pick[of es 0 None] a obtain src where s:
    "src \<in> set (images es)" "latest_loop es None 0 = Some src"
    "\<forall>f\<in>set (images es). f_mtime f \<le> f_mtime src"
    by blast
  from s(1) have "is_image src" by (simp add: images_def)
  from image_mime_total[OF this] obtain mime where
    m: "map_of IMAGE_MIME (lower (f_suffix src)) = Some mime" by blast
  have "copy_screenshot_to_allure maestro_dir ident w =
            (Some (ident @ ''-attachment'' @ lower (f_suffix src), mime),
             w\<lparr>copied := copied w @ [(f_path src, ident @ ''-attachment'' @ lower (f_suffix src))]\<rparr>)"
    using a s(2) m
    by (simp add: copy_screenshot_to_allure_def find_latest_screenshot_def Let_def)
  with s(1,3) m show "\<exists>src\<in>set (images es). \<exists>mime.
          (\<forall>f\<in>set (images es). f_mtime f \<le> f_mtime src)
        \<and> map_of IMAGE_MIME (lower (f_suffix src)) = Some mime
        \<and> copy_screenshot_to_allure maestro_dir ident w =
            (Some (ident @ ''-attachment'' @ lower (f_suffix src), mime),
             w\<lparr>copied := copied w @ [(f_path src, ident @ ''-attachment'' @ lower (f_suffix src))]\<rparr>)"
    by blast
qed

theorem screenshot_copier_witness:
  "copy_screenshot_to_allure None ''abc'' w_empty = (None, w_empty)
   \<and> (\<exists>src\<in>set (images shots). \<exists>mime.
          (\<forall>f\<in>set (images shots). f_mtime f \<le> f_mtime src)
        \<and> map_of IMAGE_MIME (lower (f_suffix src)) = Some mime
        \<and> copy_screenshot_to_allure (Some shots) ''abc'' w_empty =
            (Some (''abc'' @ ''-attachment'' @ lower (f_suffix src), mime),
             w_empty\<lparr>copied := copied w_empty @
                [(f_path src, ''abc'' @ ''-attachment'' @ lower (f_suffix src))]\<rparr>))"
proof -
  have pos: "\<exists>f\<in>set (images shots). 0 < f_mtime f" by code_simp
  from screenshot_copier[of None "''abc''" w_empty]
  have a: "copy_screenshot_to_allure None ''abc'' w_empty = (None, w_empty)" by simp
  from screenshot_copier[of "Some shots" "''abc''" w_empty] pos
  have b: "\<exists>src\<in>set (images shots). \<exists>mime.
          (\<forall>f\<in>set (images shots). f_mtime f \<le> f_mtime src)
        \<and> map_of IMAGE_MIME (lower (f_suffix src)) = Some mime
        \<and> copy_screenshot_to_allure (Some shots) ''abc'' w_empty =
            (Some (''abc'' @ ''-attachment'' @ lower (f_suffix src), mime),
             w_empty\<lparr>copied := copied w_empty @
                [(f_path src, ''abc'' @ ''-attachment'' @ lower (f_suffix src))]\<rparr>)"
    by blast
  from a b show ?thesis by blast
qed

theorem screenshot_copier_counterexample:
  "fst (copy_screenshot_to_allure (Some shots) ''abc'' w_empty)
     = Some (''abc-attachment.png'', ''image/png'')
   \<and> map f_suffix (filter (\<lambda>f. f_mtime f = 5) (images shots)) = [''.PNG'']
   \<and> ''abc'' @ ''-attachment'' @ ''.PNG'' \<noteq> ''abc-attachment.png''"
  by code_simp

subsection \<open>A failed test case without steps\<close>

text \<open>
  Claim C10: for a failed test case whose flow yields no step the default index is -1, the
  record has no steps and carries the failure detail, and the guard before the step is
  given the attachment keeps the run from an out-of-range access. The guard is
  \<open>failed_step_index < len(step_objects)\<close>, which -1 passes: when a screenshot is found
  the assignment to \<open>step_objects[-1]\<close> raises IndexError, after the image was copied and
  before the record is written. Without a screenshot the record is as the claim says.
\<close>

theorem no_steps_screenshot_index_error:
  "failed_step_index (tc_status c_nosteps) (tc_details c_nosteps)
      (steps_from_flow_yaml (flows w_demo) (flow_name c_nosteps)) = - 1
   \<and> outcome (emit_case env0 0 c_nosteps w_demo) = Some IndexError
   \<and> emitted (emit_case env0 0 c_nosteps w_demo) = []
   \<and> outcome (emit_case env0 0 c_nosteps w_empty) = None
   \<and> map r_steps (emitted (emit_case env0 0 c_nosteps w_empty)) = [[]]
   \<and> map r_statusDetails (emitted (emit_case env0 0 c_nosteps w_empty)) = [Some tap_failure]"
  by code_simp

end
